theory Spec2Isabelle
  imports Complex_Main
begin

section \<open>The Daubechies wavelet grid of the VES module (DbWaveletGrid)\<close>

text \<open>
  A shallow embedding of \<^verbatim>\<open>DbWaveletGrid::setupGrid\<close>, \<^verbatim>\<open>setupMatrices\<close>,
  \<^verbatim>\<open>calcIntegerValues\<close>, \<^verbatim>\<open>getEigenvector\<close>, \<^verbatim>\<open>cascade\<close> and
  \<^verbatim>\<open>fillGridFromMaps\<close>.

  Conventions.
  \<^item> \<^verbatim>\<open>unsigned\<close> is a natural number below \<open>2 ^ 32\<close>; where the source computes
    with \<^verbatim>\<open>unsigned\<close> operands the reduction modulo \<open>2 ^ 32\<close> is written out.
  \<^item> \<^verbatim>\<open>double\<close> is a real number or the single value \<open>NonFinite\<close>, which stands
    for \<open>+inf\<close>, \<open>-inf\<close> and \<open>NaN\<close>. Rounding and overflow of finite values are
    not modelled.
  \<^item> \<^verbatim>\<open>std::string\<close> is \<open>string\<close>, \<^verbatim>\<open>std::vector\<close> is a list, and
    \<^verbatim>\<open>std::unordered_map\<close> is an association list with distinct keys, kept in
    insertion order.
\<close>

subsection \<open>Errors\<close>

text \<open>
  The error kinds of the design. None of the functions of \<^verbatim>\<open>DbWaveletGrid\<close> contains a
  \<^verbatim>\<open>throw\<close> or an assertion, so the embedded functions whose result type is
  \<open>error + 'a\<close> have no \<open>Inl\<close> branch of their own; \<open>Inl\<close> only enters through the
  external filter coefficient provider.
\<close>

datatype error = ConfigurationError | LinearAlgebraError | NumericalError
  | InternalConsistencyError

subsection \<open>Grid sizing (setupGrid, lines 40 to 46)\<close>

text \<open>
  \<^verbatim>\<open>while (maxsupport*(1<<recursion_number) < gridsize) recursion_number++;\<close>
  The product is an \<^verbatim>\<open>unsigned\<close> product and wraps. The shift \<^verbatim>\<open>1<<recursion_number\<close>
  is an \<^verbatim>\<open>int\<close> shift: it is defined up to a shift count of 31 (where the value
  converted to \<^verbatim>\<open>unsigned\<close> is \<open>2 ^ 31\<close>) and undefined from 32 on, which is the
  result \<open>None\<close>.
\<close>

function recursion_loop :: "nat \<Rightarrow> nat \<Rightarrow> nat \<Rightarrow> nat option" where
  "recursion_loop maxsupport gridsize recursion_number =
     (if 32 \<le> recursion_number then None
      else if (maxsupport * 2 ^ recursion_number) mod 2 ^ 32 < gridsize
      then recursion_loop maxsupport gridsize (recursion_number + 1)
      else Some recursion_number)"
  by pat_completeness auto
termination
  by (relation "measure (\<lambda>(m, g, r). 32 - r)") auto

declare recursion_loop.simps [simp del]

text \<open>\<^verbatim>\<open>unsigned maxsupport = order*2 -1;\<close>\<close>

definition maxsupport_of :: "nat \<Rightarrow> nat" where
  "maxsupport_of order = (order * 2 + (2 ^ 32 - 1)) mod 2 ^ 32"

text \<open>
  The three sizes the build works with: \<open>(recursion_number, bins_per_int, gridsize)\<close>,
  the last being the reassigned (``true'') grid size.
\<close>

definition grid_sizes :: "nat \<Rightarrow> nat \<Rightarrow> (nat \<times> nat \<times> nat) option" where
  "grid_sizes order gridsize =
     (let maxsupport = maxsupport_of order in
      case recursion_loop maxsupport gridsize 0 of
        None \<Rightarrow> None
      | Some recursion_number \<Rightarrow>
          (let bins_per_int = 2 ^ recursion_number
           in Some (recursion_number, bins_per_int, (maxsupport * bins_per_int) mod 2 ^ 32)))"

subsection \<open>Doubles\<close>

datatype double = Finite real | NonFinite

fun dadd :: "double \<Rightarrow> double \<Rightarrow> double" where
  "dadd (Finite a) (Finite b) = Finite (a + b)"
| "dadd _ _ = NonFinite"

fun dsub :: "double \<Rightarrow> double \<Rightarrow> double" where
  "dsub (Finite a) (Finite b) = Finite (a - b)"
| "dsub _ _ = NonFinite"

fun dmul :: "double \<Rightarrow> double \<Rightarrow> double" where
  "dmul (Finite a) (Finite b) = Finite (a * b)"
| "dmul _ _ = NonFinite"

text \<open>
  \<^verbatim>\<open>1/x\<close> for a finite \<open>x\<close>: dividing by zero gives an infinity, not an exception.
\<close>

definition drecip :: "real \<Rightarrow> double" where
  "drecip x = (if x = 0 then NonFinite else Finite (1 / x))"

subsection \<open>Dense matrices\<close>

text \<open>
  Modelled from the spec: the dense matrix type \<^verbatim>\<open>Matrix<double>\<close> of
  \<^verbatim>\<open>tools/Matrix.h\<close>, which is not among the sources. The spec asks for a ``square
  matrix type supporting element access, scalar multiplication, and matrix--vector
  multiplication''. A matrix is the list of its rows.
\<close>

type_synonym Matrix = "double list list"

definition resize :: "nat \<Rightarrow> nat \<Rightarrow> Matrix" where
  \<comment> \<open>\<^verbatim>\<open>M.resize(nr, nc)\<close> on a freshly declared matrix: all entries zero\<close>
  "resize nr nc = replicate nr (replicate nc (Finite 0))"

definition ncols :: "Matrix \<Rightarrow> nat" where
  "ncols A = (case A of [] \<Rightarrow> 0 | row # _ \<Rightarrow> length row)"

definition elem :: "Matrix \<Rightarrow> nat \<Rightarrow> nat \<Rightarrow> double" where
  \<comment> \<open>\<^verbatim>\<open>A(i,j)\<close> and \<^verbatim>\<open>A[i][j]\<close> read\<close>
  "elem A i j = A ! i ! j"

definition set_elem :: "Matrix \<Rightarrow> nat \<Rightarrow> nat \<Rightarrow> double \<Rightarrow> Matrix" where
  \<comment> \<open>\<^verbatim>\<open>A[i][j] = v\<close>\<close>
  "set_elem A i j v = A[i := (A ! i)[j := v]]"

definition mat_scale :: "double \<Rightarrow> Matrix \<Rightarrow> Matrix" where
  \<comment> \<open>\<^verbatim>\<open>M *= c\<close>\<close>
  "mat_scale c M = map (map (\<lambda>x. dmul x c)) M"

definition mult :: "Matrix \<Rightarrow> double list \<Rightarrow> double list" where
  \<comment> \<open>\<^verbatim>\<open>mult(A, x, out)\<close>: \<open>out[i]\<close> is the sum over \<open>k\<close> of \<open>A(i,k) * x[k]\<close>\<close>
  "mult A x = map (\<lambda>row. foldl dadd (Finite 0) (map2 dmul row x)) A"

subsection \<open>Dilation Matrix Builder (setupMatrices, lines 87 to 103)\<close>

text \<open>
  The body of the inner loop, for one pair \<open>(i, j)\<close>. The loop counters are \<^verbatim>\<open>int\<close>s
  that start at 0, hence naturals; \<open>shift\<close> and \<open>N\<close> are integers. The two matrices
  have \<open>N * N\<close> entries each, which keeps \<open>N\<close> and \<open>2 * i - j\<close> far inside the
  range of \<^verbatim>\<open>int\<close>.
\<close>

definition setup_cell ::
  "double list \<Rightarrow> int \<Rightarrow> nat \<Rightarrow> nat \<Rightarrow> Matrix \<times> Matrix \<Rightarrow> Matrix \<times> Matrix" where
  "setup_cell coeffs N i j = (\<lambda>(M0, M1).
     (let shift = 2 * int i - int j;
          M0' = (if 0 \<le> shift \<and> shift \<le> N
                 then set_elem M0 i j (dmul (Finite 2) (coeffs ! nat (2 * int i - int j)))
                 else M0);
          M1' = (if -1 \<le> shift \<and> shift \<le> N - 1
                 then set_elem M1 i j (dmul (Finite 2) (coeffs ! nat (2 * int i - int j + 1)))
                 else M1)
      in (M0', M1')))"

text \<open>
  No check of the coefficient sequence precedes the loops. For an empty sequence \<open>N\<close> is
  \<open>-1\<close>; what \<^verbatim>\<open>Matrix::resize\<close> does with a negative dimension is outside the
  sources, and the model takes the empty matrix there.
\<close>

definition setupMatrices :: "double list \<Rightarrow> error + Matrix list" where
  "setupMatrices coeffs =
     (let N = int (length coeffs) - 1;
          M0 = resize (nat N) (nat N);
          M1 = resize (nat N) (nat N);
          (M0', M1') = fold (\<lambda>i. fold (setup_cell coeffs N i) [0..<nat N]) [0..<nat N] (M0, M1)
      in Inr [M0', M1'])"

subsection \<open>Eigenvector Extractor (getEigenvector, lines 129 to 160)\<close>

text \<open>
  The LAPACK routine \<^verbatim>\<open>plumed_lapack_dgesdd\<close> is external: it is a parameter
  \<open>dgesdd\<close> that maps the order \<open>N\<close> and the column-major array \<open>da\<close> to the status
  \<open>info\<close> and the array \<open>VT\<close> it leaves behind, whose entries are taken to be finite.
  The first call of the source only asks for the size of the work array.
\<close>

type_synonym lapack = "nat \<Rightarrow> double list \<Rightarrow> int \<times> real list"

text \<open>
  Lines 139 to 142: the local array \<open>da\<close>, the matrix minus the eigenvalue on the
  diagonal, in column-major order.
\<close>

definition local_array :: "Matrix \<Rightarrow> double \<Rightarrow> double list" where
  "local_array A eigenvalue =
     (let N = ncols A
      in concat (map (\<lambda>i. map (\<lambda>j.
           if i = j then dsub (elem A j i) eigenvalue else elem A j i) [0..<N]) [0..<N]))"

text \<open>The status \<open>info\<close> is written by the routine and never read.\<close>

definition getEigenvector :: "lapack \<Rightarrow> Matrix \<Rightarrow> double \<Rightarrow> error + real list" where
  "getEigenvector dgesdd A eigenvalue =
     (let N = ncols A;
          da = local_array A eigenvalue;
          (info, VT) = dgesdd N da;
          eigenvector = map (\<lambda>i. VT ! (N - 1 + i * N)) [0..<N]
      in Inr eigenvector)"

subsection \<open>Normalizer (calcIntegerValues, lines 106 to 123)\<close>

text \<open>
  \<^verbatim>\<open>pow(-i, deriv)\<close> with \<^verbatim>\<open>unsigned i\<close>: the negation is taken in \<^verbatim>\<open>unsigned\<close>
  arithmetic before the conversion to \<^verbatim>\<open>double\<close>.
\<close>

definition pow_neg :: "nat \<Rightarrow> nat \<Rightarrow> real" where
  "pow_neg i deriv = real ((2 ^ 32 - i) mod 2 ^ 32) ^ deriv"

definition normfactor_sum :: "real list \<Rightarrow> nat \<Rightarrow> real" where
  \<comment> \<open>the loop of lines 114 to 116, starting from \<open>0.\<close>\<close>
  "normfactor_sum values deriv =
     foldl (\<lambda>normfactor i. normfactor + values ! i * pow_neg i deriv) 0 [1..<length values]"

text \<open>Lines 111 to 120: the normalization of the eigenvector. Nothing guards the division.\<close>

definition normalize :: "real list \<Rightarrow> nat \<Rightarrow> double list" where
  "normalize values deriv =
     (let normfactor = normfactor_sum values deriv;
          normfactor' = drecip normfactor
      in map (\<lambda>value. dmul (Finite value) normfactor') values)"

definition calcIntegerValues :: "lapack \<Rightarrow> Matrix \<Rightarrow> nat \<Rightarrow> error + double list" where
  "calcIntegerValues dgesdd M deriv =
     (let eigenvalue = Finite ((1 / 2) ^ deriv) in
      case getEigenvector dgesdd M eigenvalue of
        Inl e \<Rightarrow> Inl e
      | Inr values \<Rightarrow> Inr (normalize values deriv))"

subsection \<open>Binary maps\<close>

type_synonym BinaryMap = "(string \<times> double list) list"

definition keys :: "BinaryMap \<Rightarrow> string list" where
  "keys m = map fst m"

definition assign :: "BinaryMap \<Rightarrow> string \<Rightarrow> double list \<Rightarrow> BinaryMap" where
  \<comment> \<open>\<^verbatim>\<open>m[k] = v\<close>\<close>
  "assign m k v =
     (if k \<in> set (keys m) then map (\<lambda>(k', v'). if k' = k then (k', v) else (k', v')) m
      else m @ [(k, v)])"

definition subscript :: "BinaryMap \<Rightarrow> string \<Rightarrow> double list \<times> BinaryMap" where
  \<comment> \<open>reading \<^verbatim>\<open>m[k]\<close>: a missing key is inserted with an empty vector\<close>
  "subscript m k =
     (case map_of m k of Some v \<Rightarrow> (v, m) | None \<Rightarrow> ([], m @ [(k, [])]))"

definition insert_pair :: "BinaryMap \<Rightarrow> string \<Rightarrow> double list \<Rightarrow> BinaryMap" where
  \<comment> \<open>\<^verbatim>\<open>m.insert(std::pair(k, v))\<close>: no effect when the key is present\<close>
  "insert_pair m k v = (if k \<in> set (keys m) then m else m @ [(k, v)])"

subsection \<open>Cascade Engine (cascade, lines 163 to 212)\<close>

definition scale_all :: "Matrix list \<Rightarrow> Matrix list" where
  \<comment> \<open>\<^verbatim>\<open>for (auto& M : Matvec) M *= 2;\<close>\<close>
  "scale_all Matvec = map (mat_scale (Finite 2)) Matvec"

text \<open>Lines 179 to 189: the two maps after the first two datasets are filled by hand.\<close>

definition cascade_seed ::
  "Matrix list \<Rightarrow> Matrix list \<Rightarrow> double list \<Rightarrow> bool \<Rightarrow> BinaryMap \<times> BinaryMap" where
  "cascade_seed h_Matvec g_Matvec values_at_integers do_wavelet =
     (let scaling_map = assign [] ''0'' values_at_integers;
          temp_values = mult (h_Matvec ! 1) values_at_integers;
          scaling_map = assign scaling_map ''1'' temp_values
      in if do_wavelet
         then (let temp_values = mult (g_Matvec ! 0) values_at_integers;
                   wavelet_map = assign [] ''0'' temp_values;
                   temp_values = mult (g_Matvec ! 1) values_at_integers;
                   scaling_map = assign scaling_map ''1'' temp_values
               in (scaling_map, wavelet_map))
         else (scaling_map, []))"

definition to_string :: "nat \<Rightarrow> string" where
  \<comment> \<open>\<^verbatim>\<open>std::to_string(k)\<close> for the two values \<open>k < 2\<close> of the loop\<close>
  "to_string k = (if k = 0 then ''0'' else ''1'')"

text \<open>The body of the innermost loop (lines 197 to 205), for one \<open>binary\<close> and one \<open>k\<close>.\<close>

definition refine ::
  "Matrix list \<Rightarrow> Matrix list \<Rightarrow> bool \<Rightarrow> string \<Rightarrow> nat
     \<Rightarrow> BinaryMap \<times> BinaryMap \<times> string list \<Rightarrow> BinaryMap \<times> BinaryMap \<times> string list" where
  "refine h_Matvec g_Matvec do_wavelet binary k = (\<lambda>(scaling_map, wavelet_map, new_binary_vec).
     (let new_binary = to_string k @ binary;
          (v, scaling_map) = subscript scaling_map binary;
          temp_values = mult (h_Matvec ! k) v;
          scaling_map = insert_pair scaling_map new_binary temp_values;
          (scaling_map, wavelet_map) =
            (if do_wavelet
             then (let (v, scaling_map) = subscript scaling_map binary;
                       temp_values = mult (g_Matvec ! k) v
                   in (scaling_map, insert_pair wavelet_map new_binary temp_values))
             else (scaling_map, wavelet_map))
      in (scaling_map, wavelet_map, new_binary_vec @ [new_binary])))"

text \<open>One round of the outer loop (lines 194 to 208).\<close>

definition cascade_level ::
  "Matrix list \<Rightarrow> Matrix list \<Rightarrow> bool
     \<Rightarrow> BinaryMap \<times> BinaryMap \<times> string list \<Rightarrow> BinaryMap \<times> BinaryMap \<times> string list" where
  "cascade_level h_Matvec g_Matvec do_wavelet = (\<lambda>(scaling_map, wavelet_map, binary_vec).
     fold (\<lambda>binary. fold (refine h_Matvec g_Matvec do_wavelet binary) [0, 1])
       binary_vec (scaling_map, wavelet_map, []))"

text \<open>\<^verbatim>\<open>for (unsigned i=1; i<recursion_number; ++i)\<close>\<close>

function cascade_loop ::
  "Matrix list \<Rightarrow> Matrix list \<Rightarrow> bool \<Rightarrow> nat \<Rightarrow> nat
     \<Rightarrow> BinaryMap \<times> BinaryMap \<times> string list \<Rightarrow> BinaryMap \<times> BinaryMap \<times> string list" where
  "cascade_loop h_Matvec g_Matvec do_wavelet i recursion_number st =
     (if i < recursion_number
      then cascade_loop h_Matvec g_Matvec do_wavelet (i + 1) recursion_number
             (cascade_level h_Matvec g_Matvec do_wavelet st)
      else st)"
  by pat_completeness auto
termination
  by (relation "measure (\<lambda>(h, g, w, i, r, st). r - i)") auto

declare cascade_loop.simps [simp del]

text \<open>
  The matrices are passed by reference and scaled in place, so the model returns them
  with the map: \<open>(h_Matvec, g_Matvec, map)\<close>.
\<close>

definition cascade ::
  "Matrix list \<Rightarrow> Matrix list \<Rightarrow> double list \<Rightarrow> nat \<Rightarrow> nat \<Rightarrow> nat \<Rightarrow> bool
     \<Rightarrow> Matrix list \<times> Matrix list \<times> BinaryMap" where
  "cascade h_Matvec g_Matvec values_at_integers recursion_number bins_per_int derivnum do_wavelet =
     (let h_Matvec = (if derivnum \<noteq> 0 then scale_all h_Matvec else h_Matvec);
          g_Matvec = (if do_wavelet \<and> derivnum \<noteq> 0 then scale_all g_Matvec else g_Matvec);
          (scaling_map, wavelet_map) =
             cascade_seed h_Matvec g_Matvec values_at_integers do_wavelet;
          (scaling_map, wavelet_map, binary_vec) =
             cascade_loop h_Matvec g_Matvec do_wavelet 1 recursion_number
               (scaling_map, wavelet_map, [''1''])
      in (h_Matvec, g_Matvec, if do_wavelet then wavelet_map else scaling_map))"

subsection \<open>Grid Filler (fillGridFromMaps, lines 216 to 232)\<close>

definition is_bit :: "char \<Rightarrow> bool" where
  "is_bit c = (c = CHR ''0'' \<or> c = CHR ''1'')"

text \<open>
  \<^verbatim>\<open>std::stoi(key, nullptr, 2)\<close> converts the leading binary digits of the key. It
  throws when there is none and when the value does not fit an \<^verbatim>\<open>int\<close>. (Leading
  white space and a sign, which \<^verbatim>\<open>std::stoi\<close> accepts, do not occur in a key.)
\<close>

definition dec :: "string \<Rightarrow> nat" where
  "dec key = foldl (\<lambda>acc c. 2 * acc + (if c = CHR ''1'' then 1 else 0)) 0 (takeWhile is_bit key)"

definition stoi_returns :: "string \<Rightarrow> bool" where
  "stoi_returns key = (takeWhile is_bit key \<noteq> [] \<and> dec key < 2 ^ 31)"

text \<open>
  \<^verbatim>\<open>unsigned first_grid_element = decimal * (bins_per_int >> key.length());\<close>
  The shift is undefined for a key of 32 characters or more.
\<close>

definition first_grid_element :: "nat \<Rightarrow> string \<Rightarrow> nat" where
  "first_grid_element bins_per_int key =
     (dec key * (bins_per_int div 2 ^ length key)) mod 2 ^ 32"

text \<open>
  The calls \<^verbatim>\<open>grid->setValueAndDerivatives(index, value, {deriv})\<close> made for one entry of
  the value map, in order. \<open>None\<close>: \<^verbatim>\<open>std::stoi\<close> throws, or the behaviour is undefined
  (the shift, a key missing from the derivative map, a derivative vector that is too
  short).
\<close>

definition fill_entry ::
  "nat \<Rightarrow> BinaryMap \<Rightarrow> string \<times> double list \<Rightarrow> (nat \<times> double \<times> double) list option" where
  "fill_entry bins_per_int derivs_map = (\<lambda>(key, vals).
     if \<not> stoi_returns key \<or> 32 \<le> length key then None
     else case map_of derivs_map key of
       None \<Rightarrow> None
     | Some dvals \<Rightarrow>
         if length dvals < length vals then None
         else Some (map (\<lambda>i. ((first_grid_element bins_per_int key + bins_per_int * i) mod 2 ^ 32,
                               vals ! i, dvals ! i)) [0..<length vals]))"

text \<open>
  The grid container is external; the filler is modelled by the sequence of cell writes
  it issues. The iteration order of an \<^verbatim>\<open>unordered_map\<close> is unspecified; the model
  iterates in insertion order.
\<close>

definition fillGridFromMaps ::
  "BinaryMap \<Rightarrow> BinaryMap \<Rightarrow> (nat \<times> double \<times> double) list option" where
  "fillGridFromMaps values_map derivs_map =
     (let bins_per_int = length values_map mod 2 ^ 32
      in map_option concat (those (map (fill_entry bins_per_int derivs_map) values_map)))"

subsection \<open>The build (setupGrid, lines 37 to 83)\<close>

text \<open>
  The filter coefficient provider is external: a parameter that returns the coefficients
  or an error. The result of a build is \<open>Inl\<close> an error, \<open>Inr None\<close> when the build does not
  complete normally (see \<open>recursion_loop\<close> and \<open>fill_entry\<close>), or \<open>Inr (Some (gridsize,
  writes))\<close>: the size the grid is created with and the cell writes.
\<close>

type_synonym provider = "nat \<Rightarrow> bool \<Rightarrow> error + double list"

definition bind_error :: "error + 'a \<Rightarrow> ('a \<Rightarrow> error + 'b) \<Rightarrow> error + 'b" where
  "bind_error x f = (case x of Inl e \<Rightarrow> Inl e | Inr v \<Rightarrow> f v)"

definition setupGrid ::
  "provider \<Rightarrow> lapack \<Rightarrow> nat \<Rightarrow> nat \<Rightarrow> bool
     \<Rightarrow> error + (nat \<times> (nat \<times> double \<times> double) list) option" where
  "setupGrid getFilterCoefficients dgesdd order gridsize do_wavelet =
     (case grid_sizes order gridsize of
        None \<Rightarrow> Inr None
      | Some (recursion_number, bins_per_int, gridsize') \<Rightarrow>
          bind_error (getFilterCoefficients order True) (\<lambda>h_coeffs.
          bind_error (setupMatrices h_coeffs) (\<lambda>h_Matvec.
          bind_error (calcIntegerValues dgesdd (h_Matvec ! 0) 0) (\<lambda>values_at_integers.
          bind_error (calcIntegerValues dgesdd (h_Matvec ! 0) 1) (\<lambda>derivs_at_integers.
          bind_error (if do_wavelet
                      then bind_error (getFilterCoefficients order False) setupMatrices
                      else Inr []) (\<lambda>g_Matvec.
            (let (h_Matvec, g_Matvec, values) =
                   cascade h_Matvec g_Matvec values_at_integers
                     recursion_number bins_per_int 0 do_wavelet;
                 (h_Matvec, g_Matvec, derivs) =
                   cascade h_Matvec g_Matvec derivs_at_integers
                     recursion_number bins_per_int 1 do_wavelet
             in Inr (map_option (Pair gridsize') (fillGridFromMaps values derivs)))))))))"

subsection \<open>Addresses, as the design describes them\<close>

text \<open>The bit strings of a given length whose last bit is 1.\<close>

definition odd_addresses :: "nat \<Rightarrow> string set" where
  "odd_addresses l = {b. length b = l \<and> (\<forall>c\<in>set b. is_bit c) \<and> last b = CHR ''1''}"

subsection \<open>The normalization denominator, as the design states it\<close>

text \<open>The sum of \<open>v[i] * (-i) ^ d\<close> over \<open>i\<close> from 1 to \<open>N - 1\<close>.\<close>

definition moment_sum :: "real list \<Rightarrow> nat \<Rightarrow> real" where
  "moment_sum v d = (\<Sum>i = 1..<length v. v ! i * (- real i) ^ d)"

subsection \<open>The shift rule, as the design states it\<close>

text \<open>
  What the two nested loops write into the cell \<open>(i, j)\<close> of \<open>M0\<close> and of \<open>M1\<close>, if
  anything; \<open>wr\<close> performs such a write.
\<close>

definition M0_write :: "double list \<Rightarrow> nat \<Rightarrow> nat \<Rightarrow> double option" where
  "M0_write h i j =
     (let shift = 2 * int i - int j
      in if 0 \<le> shift \<and> shift \<le> int (length h) - 1
         then Some (dmul (Finite 2) (h ! nat shift)) else None)"

definition M1_write :: "double list \<Rightarrow> nat \<Rightarrow> nat \<Rightarrow> double option" where
  "M1_write h i j =
     (let shift = 2 * int i - int j
      in if -1 \<le> shift \<and> shift \<le> int (length h) - 1 - 1
         then Some (dmul (Finite 2) (h ! nat (shift + 1))) else None)"

definition wr :: "(nat \<Rightarrow> nat \<Rightarrow> double option) \<Rightarrow> nat \<Rightarrow> nat \<Rightarrow> Matrix \<Rightarrow> Matrix" where
  "wr w i j A = (case w i j of None \<Rightarrow> A | Some v \<Rightarrow> set_elem A i j v)"

subsection \<open>Example externals\<close>

text \<open>
  A coefficient provider that returns four coefficients for every order (the indices the
  filler writes do not depend on their values), and a decomposition routine that reports
  success and leaves an array of ones.
\<close>

definition example_provider :: provider where
  "example_provider order scaling =
     Inr (if scaling then [Finite (1 / 4), Finite (3 / 4), Finite (3 / 4), Finite (1 / 4)]
          else [Finite (1 / 4), Finite (- 3 / 4), Finite (3 / 4), Finite (- 1 / 4)])"

definition example_dgesdd :: lapack where
  "example_dgesdd N da = (0, replicate (N * N) 1)"

subsection \<open>The addresses of one length\<close>

text \<open>
  \<open>children\<close> is what one round of the outer loop of the cascade makes of
  \<open>binary_vec\<close>; \<open>level_addresses n\<close> is \<open>binary_vec\<close> after \<open>n\<close> rounds, a list
  of addresses of length \<open>n + 1\<close>.
\<close>

definition children :: "string list \<Rightarrow> string list" where
  "children binary_vec = concat (map (\<lambda>binary. [''0'' @ binary, ''1'' @ binary]) binary_vec)"

primrec level_addresses :: "nat \<Rightarrow> string list" where
  "level_addresses 0 = [''1'']"
| "level_addresses (Suc n) = children (level_addresses n)"

section \<open>Results\<close>

subsection \<open>Grid sizing: results\<close>

lemma recursion_loop_minimal:
  assumes "1 \<le> ms" "ms < 2 ^ 32" "gs \<le> 2 ^ 31" "\<forall>k<r. ms * 2 ^ k < gs"
  shows "\<exists>n. recursion_loop ms gs r = Some n \<and> r \<le> n \<and> n < 32 \<and> gs \<le> ms * 2 ^ n
           \<and> ms * 2 ^ n < 2 ^ 32 \<and> (\<forall>k<n. ms * 2 ^ k < gs)"
  using assms
proof (induction ms gs r rule: recursion_loop.induct)
  case (1 ms gs r)
  have small: "ms * 2 ^ r < 2 ^ 32"
  proof (cases r)
    case 0
    with "1.prems" show ?thesis by simp
  next
    case (Suc q)
    with "1.prems" have "ms * 2 ^ q < gs" by simp
    with "1.prems" have "ms * 2 ^ q < 2 ^ 31" by linarith
    then show ?thesis using Suc by simp
  qed
  have "(2::nat) ^ r \<le> ms * 2 ^ r" using "1.prems"(1) by simp
  with small have "(2::nat) ^ r < 2 ^ 32" by linarith
  then have r32: "r < 32"
    by (rule power_less_imp_less_exp [rotated]) simp
  have modeq: "(ms * 2 ^ r) mod 2 ^ 32 = ms * 2 ^ r"
    using small by (rule mod_less)
  have step: "recursion_loop ms gs r =
      (if ms * 2 ^ r < gs then recursion_loop ms gs (r + 1) else Some r)"
  proof -
    have "\<not> 32 \<le> r" using r32 by simp
    then show ?thesis
      by (subst recursion_loop.simps) (simp only: modeq if_False)
  qed
  show ?case
  proof (cases "ms * 2 ^ r < gs")
    case True
    have all: "\<forall>k<r + 1. ms * 2 ^ k < gs"
      using True "1.prems"(4) by (auto simp: less_Suc_eq)
    have "\<not> 32 \<le> r" using r32 by simp
    moreover have "(ms * 2 ^ r) mod 2 ^ 32 < gs"
      using True by (simp only: modeq)
    ultimately have "\<exists>n. recursion_loop ms gs (r + 1) = Some n \<and> r + 1 \<le> n \<and> n < 32
        \<and> gs \<le> ms * 2 ^ n \<and> ms * 2 ^ n < 2 ^ 32 \<and> (\<forall>k<n. ms * 2 ^ k < gs)"
      using "1.prems"(1-3) all by (rule "1.IH")
    then obtain n where "recursion_loop ms gs (r + 1) = Some n" "r + 1 \<le> n" "n < 32"
        "gs \<le> ms * 2 ^ n" "ms * 2 ^ n < 2 ^ 32" "\<forall>k<n. ms * 2 ^ k < gs"
      by blast
    moreover have "recursion_loop ms gs r = recursion_loop ms gs (r + 1)"
      using True by (simp only: step if_True)
    ultimately show ?thesis
      by (intro exI [of _ n]) simp
  next
    case False
    then have "recursion_loop ms gs r = Some r"
      by (simp only: step if_False)
    moreover have "gs \<le> ms * 2 ^ r" using False by simp
    ultimately show ?thesis
      using r32 small "1.prems"(4) by (intro exI [of _ r]) simp
  qed
qed

lemma maxsupport_of_small:
  assumes "1 \<le> order" "order \<le> 2 ^ 31"
  shows "maxsupport_of order = 2 * order - 1"
proof -
  have "order * 2 + (2 ^ 32 - 1) = (2 * order - 1) + (2 ^ 32 :: nat)"
    using assms by simp
  then have "maxsupport_of order = ((2 * order - 1) + 2 ^ 32) mod 2 ^ 32"
    unfolding maxsupport_of_def by (rule arg_cong)
  also have "\<dots> = (2 * order - 1) mod 2 ^ 32"
    by (rule mod_add_self2)
  also have "\<dots> = 2 * order - 1"
    using assms by (intro mod_less) simp
  finally show ?thesis .
qed

text \<open>
  C4 (as amended). For every order between 1 and \<open>2 ^ 31\<close> and every requested grid size
  between 1 and \<open>2 ^ 31\<close>, the build chooses \<open>recursion_number\<close> as the smallest \<open>r\<close>
  with \<open>maxsupport * 2 ^ r \<ge> gridsize\<close>, where \<open>maxsupport = 2 * order - 1\<close>; it sets
  \<open>bins_per_int = 2 ^ r\<close>, and the actual grid size is \<open>maxsupport * bins_per_int\<close>. In this
  range no 32-bit product wraps.
\<close>

theorem grid_sizes_smallest:
  assumes "1 \<le> order" "order \<le> 2 ^ 31" "1 \<le> gridsize" "gridsize \<le> 2 ^ 31"
  shows "\<exists>r. grid_sizes order gridsize = Some (r, 2 ^ r, (2 * order - 1) * 2 ^ r)
           \<and> gridsize \<le> (2 * order - 1) * 2 ^ r
           \<and> (\<forall>k<r. (2 * order - 1) * 2 ^ k < gridsize)"
proof -
  let ?ms = "2 * order - 1"
  have ms: "maxsupport_of order = ?ms"
    using assms(1,2) by (rule maxsupport_of_small)
  have "1 \<le> ?ms" using assms(1) by simp
  moreover have "?ms < 2 ^ 32" using assms(1,2) by simp
  moreover have "\<forall>k<(0::nat). ?ms * 2 ^ k < gridsize" by simp
  ultimately obtain n where n: "recursion_loop ?ms gridsize 0 = Some n"
      "gridsize \<le> ?ms * 2 ^ n" "?ms * 2 ^ n < 2 ^ 32" "\<forall>k<n. ?ms * 2 ^ k < gridsize"
    using recursion_loop_minimal [of ?ms gridsize 0] assms(4) by blast
  have "grid_sizes order gridsize = Some (n, 2 ^ n, (?ms * 2 ^ n) mod 2 ^ 32)"
    unfolding grid_sizes_def Let_def ms n(1) by (simp only: option.case)
  moreover have "(?ms * 2 ^ n) mod 2 ^ 32 = ?ms * 2 ^ n"
    using n(3) by (rule mod_less)
  ultimately show ?thesis using n(2,4) by auto
qed

text \<open>
  The example of the design: order 2 and a requested grid size of 10 give
  \<open>recursion_number = 2\<close>, \<open>bins_per_int = 4\<close> and the grid size 12.
\<close>

theorem grid_sizes_smallest_witness:
  "(1::nat) \<le> 2 \<and> (2::nat) \<le> 2 ^ 31 \<and> (1::nat) \<le> 10 \<and> (10::nat) \<le> 2 ^ 31
     \<and> grid_sizes 2 10 = Some (2, 4, 12)"
proof -
  obtain r where r: "grid_sizes 2 10 = Some (r, 2 ^ r, (2 * 2 - 1) * 2 ^ r)"
      "10 \<le> (2 * 2 - 1) * (2::nat) ^ r" "\<forall>k<r. (2 * 2 - 1) * (2::nat) ^ k < 10"
    using grid_sizes_smallest [of 2 10] by auto
  have "\<not> 2 < r" using r(3) by (auto dest: spec [of _ 2])
  moreover have "r \<noteq> 0" using r(2) by (intro notI) simp
  moreover have "r \<noteq> 1" using r(2) by (intro notI) simp
  ultimately have "r = 2" by linarith
  with r(1) show ?thesis by simp
qed

text \<open>
  C4 as stated fails outside that range: for order 1500000000 and a requested grid size of
  4000000000 the products \<open>maxsupport * 2 ^ r\<close> wrap around \<open>2 ^ 32\<close>, and the loop stops
  at \<open>r = 19\<close>, although \<open>r = 1\<close> already satisfies \<open>maxsupport * 2 ^ r \<ge> gridsize\<close>.
\<close>

theorem grid_sizes_wraps_counterexample:
  "grid_sizes 1500000000 4000000000 = Some (19, 2 ^ 19, 4026007552)
     \<and> (4000000000::nat) \<le> (2 * 1500000000 - 1) * 2 ^ 1"
  by (simp add: grid_sizes_def maxsupport_of_def recursion_loop.simps)

subsection \<open>Dilation Matrix Builder: results\<close>

lemma set_elem_length [simp]: "length (set_elem A i j v) = length A"
  by (simp add: set_elem_def)

lemma set_elem_row_length [simp]: "length (set_elem A i j v ! i') = length (A ! i')"
  by (cases "i < length A") (simp_all add: set_elem_def nth_list_update list_update_beyond)

lemma set_elem_nth:
  "i < length A \<Longrightarrow> j < length (A ! i) \<Longrightarrow>
     set_elem A i j v ! i' ! j' = (if i' = i \<and> j' = j then v else A ! i' ! j')"
  by (simp add: set_elem_def nth_list_update)

lemma wr_length [simp]: "length (wr w i j A) = length A"
  by (simp add: wr_def split: option.splits)

lemma wr_row_length [simp]: "length (wr w i j A ! i') = length (A ! i')"
  by (simp add: wr_def split: option.splits)

lemma wr_nth:
  "i < length A \<Longrightarrow> j < length (A ! i) \<Longrightarrow>
     wr w i j A ! i' ! j' =
       (if i' = i \<and> j' = j then (case w i j of None \<Rightarrow> A ! i' ! j' | Some v \<Rightarrow> v)
        else A ! i' ! j')"
  by (simp add: wr_def set_elem_nth split: option.splits)

lemma fold_wr_length [simp]: "length (fold (wr w i) js A) = length A"
  by (induction js arbitrary: A) simp_all

lemma fold_wr_row_length [simp]: "length (fold (wr w i) js A ! i') = length (A ! i')"
  by (induction js arbitrary: A) simp_all

lemma fold_wr_nth:
  "i < length A \<Longrightarrow> \<forall>j\<in>set js. j < length (A ! i) \<Longrightarrow>
     fold (wr w i) js A ! i' ! j' =
       (if i' = i \<and> j' \<in> set js then (case w i j' of None \<Rightarrow> A ! i' ! j' | Some v \<Rightarrow> v)
        else A ! i' ! j')"
proof (induction js arbitrary: A)
  case Nil
  then show ?case by simp
next
  case (Cons j js)
  have "fold (wr w i) (j # js) A ! i' ! j' = fold (wr w i) js (wr w i j A) ! i' ! j'"
    by simp
  also have "\<dots> = (if i' = i \<and> j' \<in> set js
        then (case w i j' of None \<Rightarrow> wr w i j A ! i' ! j' | Some v \<Rightarrow> v)
        else wr w i j A ! i' ! j')"
    using Cons.prems by (intro Cons.IH) simp_all
  also have "\<dots> = (if i' = i \<and> j' \<in> set (j # js)
        then (case w i j' of None \<Rightarrow> A ! i' ! j' | Some v \<Rightarrow> v) else A ! i' ! j')"
    using Cons.prems by (auto simp: wr_nth split: option.splits)
  finally show ?case .
qed

lemma fold_rows_length [simp]: "length (fold (\<lambda>i. fold (wr w i) js) is A) = length A"
  by (induction "is" arbitrary: A) simp_all

lemma fold_rows_row_length [simp]:
  "length (fold (\<lambda>i. fold (wr w i) js) is A ! i') = length (A ! i')"
  by (induction "is" arbitrary: A) simp_all

lemma fold_rows_nth:
  "\<forall>i\<in>set is. i < length A \<and> (\<forall>j\<in>set js. j < length (A ! i)) \<Longrightarrow>
     fold (\<lambda>i. fold (wr w i) js) is A ! i' ! j' =
       (if i' \<in> set is \<and> j' \<in> set js
        then (case w i' j' of None \<Rightarrow> A ! i' ! j' | Some v \<Rightarrow> v)
        else A ! i' ! j')"
proof (induction "is" arbitrary: A)
  case Nil
  then show ?case by simp
next
  case (Cons i "is")
  let ?A = "fold (wr w i) js A"
  have "fold (\<lambda>i. fold (wr w i) js) (i # is) A ! i' ! j'
      = fold (\<lambda>i. fold (wr w i) js) is ?A ! i' ! j'"
    by simp
  also have "\<dots> = (if i' \<in> set is \<and> j' \<in> set js
        then (case w i' j' of None \<Rightarrow> ?A ! i' ! j' | Some v \<Rightarrow> v) else ?A ! i' ! j')"
    using Cons.prems by (intro Cons.IH) simp
  also have "\<dots> = (if i' \<in> set (i # is) \<and> j' \<in> set js
        then (case w i' j' of None \<Rightarrow> A ! i' ! j' | Some v \<Rightarrow> v) else A ! i' ! j')"
    using Cons.prems by (auto simp: fold_wr_nth split: option.splits)
  finally show ?case .
qed

lemma setup_cell_wr:
  "setup_cell h (int (length h) - 1) i j (A, B) = (wr (M0_write h) i j A, wr (M1_write h) i j B)"
  by (simp add: setup_cell_def wr_def M0_write_def M1_write_def Let_def)

lemma fold_setup_cell:
  "fold (setup_cell h (int (length h) - 1) i) js (A, B)
     = (fold (wr (M0_write h) i) js A, fold (wr (M1_write h) i) js B)"
  by (induction js arbitrary: A B) (simp_all add: setup_cell_wr)

lemma fold_fold_setup_cell:
  "fold (\<lambda>i. fold (setup_cell h (int (length h) - 1) i) js) is (A, B)
     = (fold (\<lambda>i. fold (wr (M0_write h) i) js) is A,
        fold (\<lambda>i. fold (wr (M1_write h) i) js) is B)"
  by (induction "is" arbitrary: A B) (simp_all add: fold_setup_cell)

lemma setupMatrices_eq:
  "setupMatrices h =
     Inr [fold (\<lambda>i. fold (wr (M0_write h) i) [0..<length h - 1]) [0..<length h - 1]
            (resize (length h - 1) (length h - 1)),
          fold (\<lambda>i. fold (wr (M1_write h) i) [0..<length h - 1]) [0..<length h - 1]
            (resize (length h - 1) (length h - 1))]"
proof -
  have "nat (int (length h) - 1) = length h - 1" by simp
  then show ?thesis
    by (simp add: setupMatrices_def Let_def fold_fold_setup_cell)
qed

lemma resize_nth: "i < n \<Longrightarrow> j < n \<Longrightarrow> resize n n ! i ! j = Finite 0"
  by (simp add: resize_def)

lemma resize_length [simp]: "length (resize n m) = n"
  by (simp add: resize_def)

lemma resize_row_length: "i < n \<Longrightarrow> length (resize n m ! i) = m"
  by (simp add: resize_def)

lemma written_entries:
  assumes "i < n" "j < n"
  shows "fold (\<lambda>i. fold (wr w i) [0..<n]) [0..<n] (resize n n) ! i ! j
           = (case w i j of None \<Rightarrow> Finite 0 | Some v \<Rightarrow> v)"
proof -
  have "\<forall>i\<in>set [0..<n]. i < length (resize n n) \<and> (\<forall>j\<in>set [0..<n]. j < length (resize n n ! i))"
    by (simp add: resize_row_length)
  then show ?thesis
    using assms by (simp add: fold_rows_nth resize_nth split: option.splits)
qed

text \<open>
  C5. For every coefficient sequence \<open>h\<close> of even length at least 2, with
  \<open>N = length h - 1\<close>, the builder returns two \<open>N \<times> N\<close> matrices such that for all
  \<open>i, j < N\<close>, with \<open>shift = 2 i - j\<close>: \<open>M0[i][j] = 2 * h[shift]\<close> when
  \<open>0 \<le> shift \<le> N\<close> and 0 otherwise, and \<open>M1[i][j] = 2 * h[shift + 1]\<close> when
  \<open>-1 \<le> shift \<le> N - 1\<close> and 0 otherwise.
\<close>

theorem setupMatrices_shift_rule:
  assumes "even (length h)" "2 \<le> length h" "N = length h - 1"
  shows "\<exists>M0 M1. setupMatrices h = Inr [M0, M1]
           \<and> length M0 = N \<and> length M1 = N
           \<and> (\<forall>i<N. length (M0 ! i) = N \<and> length (M1 ! i) = N)
           \<and> (\<forall>i<N. \<forall>j<N.
                M0 ! i ! j = (let shift = 2 * int i - int j
                              in if 0 \<le> shift \<and> shift \<le> int N
                                 then dmul (Finite 2) (h ! nat shift) else Finite 0)
              \<and> M1 ! i ! j = (let shift = 2 * int i - int j
                              in if -1 \<le> shift \<and> shift \<le> int N - 1
                                 then dmul (Finite 2) (h ! nat (shift + 1)) else Finite 0))"
proof -
  let ?M0 = "fold (\<lambda>i. fold (wr (M0_write h) i) [0..<N]) [0..<N] (resize N N)"
  let ?M1 = "fold (\<lambda>i. fold (wr (M1_write h) i) [0..<N]) [0..<N] (resize N N)"
  have N: "int N = int (length h) - 1" using assms(2,3) by simp
  have "setupMatrices h = Inr [?M0, ?M1]"
    unfolding assms(3) by (rule setupMatrices_eq)
  moreover have "length ?M0 = N" "length ?M1 = N" by simp_all
  moreover have "\<forall>i<N. length (?M0 ! i) = N \<and> length (?M1 ! i) = N"
    by (simp add: resize_row_length)
  moreover have "\<forall>i<N. \<forall>j<N.
      ?M0 ! i ! j = (let shift = 2 * int i - int j
                     in if 0 \<le> shift \<and> shift \<le> int N
                        then dmul (Finite 2) (h ! nat shift) else Finite 0)
    \<and> ?M1 ! i ! j = (let shift = 2 * int i - int j
                     in if -1 \<le> shift \<and> shift \<le> int N - 1
                        then dmul (Finite 2) (h ! nat (shift + 1)) else Finite 0)"
    by (simp add: written_entries M0_write_def M1_write_def Let_def N)
  ultimately show ?thesis by blast
qed

text \<open>The rule applied to a sequence of four coefficients.\<close>

theorem setupMatrices_shift_rule_witness:
  "even (length [Finite 1, Finite 2, Finite 3, Finite 4])
   \<and> 2 \<le> length [Finite 1, Finite 2, Finite 3, Finite 4]
   \<and> (\<exists>M0 M1. setupMatrices [Finite 1, Finite 2, Finite 3, Finite 4] = Inr [M0, M1]
           \<and> length M0 = 3 \<and> length M1 = 3
           \<and> (\<forall>i<3. length (M0 ! i) = 3 \<and> length (M1 ! i) = 3)
           \<and> (\<forall>i<3. \<forall>j<3.
                M0 ! i ! j = (let shift = 2 * int i - int j
                              in if 0 \<le> shift \<and> shift \<le> int 3
                                 then dmul (Finite 2) ([Finite 1, Finite 2, Finite 3, Finite 4] ! nat shift)
                                 else Finite 0)
              \<and> M1 ! i ! j = (let shift = 2 * int i - int j
                              in if -1 \<le> shift \<and> shift \<le> int 3 - 1
                                 then dmul (Finite 2) ([Finite 1, Finite 2, Finite 3, Finite 4] ! nat (shift + 1))
                                 else Finite 0)))"
proof -
  let ?h = "[Finite 1, Finite 2, Finite 3, Finite 4]"
  have a: "even (length ?h)" by simp
  have b: "2 \<le> length ?h" by simp
  have c: "3 = length ?h - 1" by simp
  show ?thesis
    using a b setupMatrices_shift_rule [OF a b c] by (intro conjI)
qed

text \<open>
  C8 (as amended). The builder checks nothing and raises no configuration error: for every
  non-empty coefficient sequence, of even or of odd length, it returns two \<open>N \<times> N\<close>
  matrices, \<open>N = length h - 1\<close>.
\<close>

theorem setupMatrices_never_fails:
  assumes "h \<noteq> []"
  shows "\<exists>M0 M1. setupMatrices h = Inr [M0, M1]
           \<and> length M0 = length h - 1 \<and> length M1 = length h - 1
           \<and> (\<forall>i<length h - 1. length (M0 ! i) = length h - 1 \<and> length (M1 ! i) = length h - 1)"
  by (simp add: setupMatrices_eq resize_row_length)

text \<open>A sequence of odd length.\<close>

theorem setupMatrices_never_fails_witness:
  "[Finite 1, Finite 2, Finite 3] \<noteq> [] \<and> odd (length [Finite 1, Finite 2, Finite 3])
     \<and> (\<exists>M0 M1. setupMatrices [Finite 1, Finite 2, Finite 3] = Inr [M0, M1]
           \<and> length M0 = 2 \<and> length M1 = 2
           \<and> (\<forall>i<2. length (M0 ! i) = 2 \<and> length (M1 ! i) = 2))"
proof -
  have "odd (length [Finite 1, Finite 2, Finite 3])" by simp
  moreover have "length [Finite 1, Finite 2, Finite 3] - 1 = 2" by simp
  ultimately show ?thesis
    using setupMatrices_never_fails [of "[Finite 1, Finite 2, Finite 3]"]
    by (simp only: list.simps simp_thms)
qed

text \<open>
  C8 as stated fails: for the three coefficients 1, 2, 3 the builder returns two
  \<open>2 \<times> 2\<close> matrices and no error.
\<close>

theorem setupMatrices_odd_counterexample:
  "setupMatrices [Finite 1, Finite 2, Finite 3] =
     Inr [[[Finite 2, Finite 0], [Finite 6, Finite 4]],
          [[Finite 4, Finite 2], [Finite 0, Finite 6]]]"
  by (simp add: setupMatrices_def setup_cell_def resize_def set_elem_def Let_def upt_rec
      numeral_2_eq_2)

subsection \<open>Eigenvector Extractor and Normalizer: results\<close>

text \<open>
  C6 (as amended). The extractor never raises and never reads the status: whatever value
  \<open>info\<close> the decomposition routine reports, zero or not, it returns the \<open>N\<close> entries
  \<open>VT[N - 1 + i * N]\<close> of the array the routine left behind.
\<close>

theorem getEigenvector_ignores_status:
  assumes "dgesdd (ncols A) (local_array A eigenvalue) = (info, VT)"
  shows "getEigenvector dgesdd A eigenvalue
           = Inr (map (\<lambda>i. VT ! (ncols A - 1 + i * ncols A)) [0..<ncols A])"
  using assms by (simp add: getEigenvector_def Let_def)

text \<open>A routine that reports the failure status 1 for every input.\<close>

theorem getEigenvector_ignores_status_witness:
  "(\<lambda>N da. (1, [0, 0, 0, 1]))
       (ncols [[Finite 1, Finite 0], [Finite 0, Finite 1]])
       (local_array [[Finite 1, Finite 0], [Finite 0, Finite 1]] (Finite 1)) = (1, [0, 0, 0, 1])
   \<and> getEigenvector (\<lambda>N da. (1, [0, 0, 0, 1]))
        [[Finite 1, Finite 0], [Finite 0, Finite 1]] (Finite 1)
       = Inr (map (\<lambda>i. [0, 0, 0, 1] ! (2 - 1 + i * 2)) [0..<2])"
proof -
  let ?A = "[[Finite 1, Finite 0], [Finite 0, Finite 1]]"
  have n: "ncols ?A = 2" by (simp add: ncols_def)
  have "(\<lambda>N da. (1::int, [0, 0, 0, 1::real])) (ncols ?A) (local_array ?A (Finite 1))
      = (1, [0, 0, 0, 1])"
    by simp
  then show ?thesis
    using getEigenvector_ignores_status
      [of "\<lambda>N da. (1, [0, 0, 0, 1])" ?A "Finite 1" 1 "[0, 0, 0, 1]"]
    by (simp only: n)
qed

text \<open>
  C6 as stated fails: with a routine that reports non-convergence (\<open>info = 1\<close>) the
  extractor returns a vector, not an error.
\<close>

theorem getEigenvector_failure_counterexample:
  "getEigenvector (\<lambda>N da. (1, [0, 0, 0, 1]))
     [[Finite 1, Finite 0], [Finite 0, Finite 1]] (Finite 1) = Inr [0, 1]"
  by (simp add: getEigenvector_def ncols_def Let_def upt_rec)

text \<open>
  For the value pass (\<open>d = 0\<close>) the denominator that the loop of lines 114 to 116
  accumulates is the one of the design.
\<close>

lemma foldl_plus:
  fixes f :: "nat \<Rightarrow> real"
  shows "foldl (\<lambda>a i. a + f i) a xs = a + sum_list (map f xs)"
  by (induction xs arbitrary: a) simp_all

lemma normfactor_sum_values: "normfactor_sum v 0 = moment_sum v 0"
proof -
  have "normfactor_sum v 0 = sum_list (map (\<lambda>i. v ! i) [1..<length v])"
    by (simp add: normfactor_sum_def pow_neg_def foldl_plus)
  also have "\<dots> = (\<Sum>i = 1..<length v. v ! i)"
    by (simp add: interv_sum_list_conv_sum_set_nat)
  finally show ?thesis by (simp add: moment_sum_def)
qed

text \<open>
  C7 (as amended). For the value pass (\<open>d = 0\<close>) the normalizer checks nothing and never
  raises: it divides by \<open>s\<close>, the sum of \<open>v[i] * (-i) ^ d\<close> over \<open>i\<close> from 1 to
  \<open>N - 1\<close>, whatever its value. When \<open>s\<close> is not zero every entry is multiplied by
  \<open>1 / s\<close>; when \<open>s\<close> is zero every entry of the returned vector is non-finite.
\<close>

theorem calcIntegerValues_unguarded:
  assumes "getEigenvector dgesdd M (Finite ((1 / 2) ^ 0)) = Inr v"
  shows "calcIntegerValues dgesdd M 0 =
           Inr (if moment_sum v 0 = 0 then replicate (length v) NonFinite
                else map (\<lambda>x. Finite (x * (1 / moment_sum v 0))) v)"
proof -
  have "normalize v 0 = (if normfactor_sum v 0 = 0 then replicate (length v) NonFinite
                else map (\<lambda>x. Finite (x * (1 / normfactor_sum v 0))) v)"
    by (simp add: normalize_def drecip_def Let_def map_replicate_const)
  then have "normalize v 0 = (if moment_sum v 0 = 0 then replicate (length v) NonFinite
                else map (\<lambda>x. Finite (x * (1 / moment_sum v 0))) v)"
    by (simp only: normfactor_sum_values)
  moreover have "calcIntegerValues dgesdd M 0 = Inr (normalize v 0)"
    using assms by (simp add: calcIntegerValues_def Let_def)
  ultimately show ?thesis by simp
qed

text \<open>An eigenvector whose entries after the first sum to zero.\<close>

theorem calcIntegerValues_unguarded_witness:
  "getEigenvector (\<lambda>N da. (0, [0, 1, 0, 0])) [[Finite 1, Finite 0], [Finite 0, Finite 1]]
       (Finite ((1 / 2) ^ 0)) = Inr [1, 0]
   \<and> calcIntegerValues (\<lambda>N da. (0, [0, 1, 0, 0]))
        [[Finite 1, Finite 0], [Finite 0, Finite 1]] 0
       = Inr (if moment_sum [1, 0] 0 = 0 then replicate (length [1, 0 :: real]) NonFinite
              else map (\<lambda>x. Finite (x * (1 / moment_sum [1, 0] 0))) [1, 0])"
proof -
  have e: "getEigenvector (\<lambda>N da. (0, [0, 1, 0, 0]))
      [[Finite 1, Finite 0], [Finite 0, Finite 1]] (Finite ((1 / 2) ^ 0)) = Inr [1, 0]"
    by (simp add: getEigenvector_def ncols_def Let_def upt_rec)
  show ?thesis
    by (rule conjI [OF e calcIntegerValues_unguarded [OF e]])
qed

text \<open>
  C7 as stated fails: for the eigenvector \<open>[1, 0]\<close> and \<open>d = 0\<close> the denominator \<open>s\<close> is
  0, and the normalizer returns a vector of non-finite entries, not an error.
\<close>

theorem calcIntegerValues_zero_counterexample:
  "moment_sum [1, 0] 0 = 0
   \<and> calcIntegerValues (\<lambda>N da. (0, [0, 1, 0, 0]))
        [[Finite 1, Finite 0], [Finite 0, Finite 1]] 0 = Inr [NonFinite, NonFinite]"
proof -
  have "normfactor_sum [1, 0] 0 = 0"
    by (simp add: normfactor_sum_def pow_neg_def upt_rec)
  then have "moment_sum [1, 0] 0 = 0"
    by (simp only: normfactor_sum_values)
  moreover have "calcIntegerValues (\<lambda>N da. (0, [0, 1, 0, 0]))
        [[Finite 1, Finite 0], [Finite 0, Finite 1]] 0 = Inr [NonFinite, NonFinite]"
    by (simp add: calcIntegerValues_def getEigenvector_def normalize_def normfactor_sum_def
        pow_neg_def drecip_def ncols_def Let_def upt_rec)
  ultimately show ?thesis by (rule conjI)
qed

subsection \<open>Cascade Engine: the matrices and the seeding\<close>

text \<open>
  C9 (as amended). A cascade invocation scales the matrices it was handed in place: after
  a call with \<open>derivnum \<noteq> 0\<close> every matrix of \<open>h_Matvec\<close> is doubled, and so is every
  matrix of \<open>g_Matvec\<close> when a wavelet pass is requested; after a call with
  \<open>derivnum = 0\<close> both are as before.
\<close>

theorem cascade_scales_in_place:
  "(case cascade h_Matvec g_Matvec seed r bins derivnum do_wavelet of
      (h', g', m) \<Rightarrow>
        h' = (if derivnum \<noteq> 0 then scale_all h_Matvec else h_Matvec)
      \<and> g' = (if do_wavelet \<and> derivnum \<noteq> 0 then scale_all g_Matvec else g_Matvec))"
  by (simp add: cascade_def Let_def split: prod.splits)

theorem cascade_scales_in_place_witness:
  "(case cascade [[[Finite 1]], [[Finite 1]]] [] [Finite 1] 1 2 1 False of
      (h', g', m) \<Rightarrow> h' = [[[Finite 2]], [[Finite 2]]] \<and> g' = [])"
  using cascade_scales_in_place [where h_Matvec = "[[[Finite 1]], [[Finite 1]]]"
      and g_Matvec = "[]" and seed = "[Finite 1]" and r = 1 and bins = 2 and derivnum = 1
      and do_wavelet = False]
  by (simp add: scale_all_def mat_scale_def split: prod.splits)

text \<open>
  C9 as stated fails: after a call with \<open>derivnum = 1\<close> the caller's matrices are not
  what they were before the call.
\<close>

theorem cascade_mutates_counterexample:
  "fst (cascade [[[Finite 1]], [[Finite 1]]] [] [Finite 1] 1 2 1 False)
     \<noteq> [[[Finite 1]], [[Finite 1]]]"
  by (simp add: cascade_def scale_all_def mat_scale_def Let_def split: prod.splits)

text \<open>
  C2, at a failing input (the Haar matrices \<open>M0 = M1 = G0 = (1)\<close>, \<open>G1 = (-1)\<close>, seed
  \<open>(1)\<close>, wavelet pass): after the seeding step the scaling map holds \<open>G1 * seed = (-1)\<close>
  at the address 1, not \<open>M1 * seed = (1)\<close>, and the wavelet map has no address 1.
\<close>

theorem cascade_seed_wavelet_slip:
  "cascade_seed [[[Finite 1]], [[Finite 1]]] [[[Finite 1]], [[Finite (- 1)]]] [Finite 1] True
     = ([(''0'', [Finite 1]), (''1'', [Finite (- 1)])], [(''0'', [Finite 1])])
   \<and> mult [[Finite 1]] [Finite 1] = [Finite 1]
   \<and> mult [[Finite (- 1)]] [Finite 1] = [Finite (- 1)]"
  by (simp add: cascade_seed_def assign_def keys_def mult_def Let_def)

subsection \<open>The build with a wavelet pass\<close>

lemma upt_small: "[0..<3] = [0, 1, 2]" "[0..<2] = [0, 1]" "[1..<3] = [1, 2]"
  by (simp_all add: upt_rec)

lemma example_sizes: "grid_sizes 2 10 = Some (2, 4, 12)"
  by (simp add: grid_sizes_def maxsupport_of_def recursion_loop.simps)

lemma example_h_Matvec:
  "setupMatrices [Finite (1 / 4), Finite (3 / 4), Finite (3 / 4), Finite (1 / 4)] =
     Inr [[[Finite (1 / 2), Finite 0, Finite 0],
           [Finite (3 / 2), Finite (3 / 2), Finite (1 / 2)],
           [Finite 0, Finite (1 / 2), Finite (3 / 2)]],
          [[Finite (3 / 2), Finite (1 / 2), Finite 0],
           [Finite (1 / 2), Finite (3 / 2), Finite (3 / 2)],
           [Finite 0, Finite 0, Finite (1 / 2)]]]"
  by (simp add: setupMatrices_def setup_cell_def resize_def set_elem_def Let_def upt_small
      numeral_3_eq_3)

lemma example_g_Matvec:
  "setupMatrices [Finite (1 / 4), Finite (- 3 / 4), Finite (3 / 4), Finite (- 1 / 4)] =
     Inr [[[Finite (1 / 2), Finite 0, Finite 0],
           [Finite (3 / 2), Finite (- 3 / 2), Finite (1 / 2)],
           [Finite 0, Finite (- 1 / 2), Finite (3 / 2)]],
          [[Finite (- 3 / 2), Finite (1 / 2), Finite 0],
           [Finite (- 1 / 2), Finite (3 / 2), Finite (- 3 / 2)],
           [Finite 0, Finite 0, Finite (- 1 / 2)]]]"
  by (simp add: setupMatrices_def setup_cell_def resize_def set_elem_def Let_def upt_small
      numeral_3_eq_3)

lemma example_eigenvector:
  "getEigenvector example_dgesdd [[a0, a1, a2], [b0, b1, b2], [c0, c1, c2]] ev = Inr [1, 1, 1]"
  by (simp add: getEigenvector_def example_dgesdd_def ncols_def Let_def upt_small)

lemma example_values:
  "calcIntegerValues example_dgesdd [[a0, a1, a2], [b0, b1, b2], [c0, c1, c2]] 0
     = Inr [Finite (1 / 2), Finite (1 / 2), Finite (1 / 2)]"
  by (simp add: calcIntegerValues_def example_eigenvector normalize_def normfactor_sum_def
      pow_neg_def drecip_def Let_def upt_small)

lemma example_derivs:
  "calcIntegerValues example_dgesdd [[a0, a1, a2], [b0, b1, b2], [c0, c1, c2]] 1
     = Inr [Finite (1 / 8589934589), Finite (1 / 8589934589), Finite (1 / 8589934589)]"
  by (simp add: calcIntegerValues_def example_eigenvector normalize_def normfactor_sum_def
      pow_neg_def drecip_def Let_def upt_small)

lemma mult3:
  "mult [[a0, a1, a2], [b0, b1, b2], [c0, c1, c2]] [x, y, z] =
     [dadd (dadd (dadd (Finite 0) (dmul a0 x)) (dmul a1 y)) (dmul a2 z),
      dadd (dadd (dadd (Finite 0) (dmul b0 x)) (dmul b1 y)) (dmul b2 z),
      dadd (dadd (dadd (Finite 0) (dmul c0 x)) (dmul c1 y)) (dmul c2 z)]"
  by (simp add: mult_def)

lemma cascade_wavelet_2:
  "cascade [H0, H1] [G0, G1] seed 2 4 d True =
     (let h' = (if d \<noteq> 0 then scale_all [H0, H1] else [H0, H1]);
          g' = (if d \<noteq> 0 then scale_all [G0, G1] else [G0, G1])
      in (h', g', [(''0'', mult (g' ! 0) seed),
                   (''01'', mult (g' ! 0) (mult (g' ! 1) seed)),
                   (''11'', mult (g' ! 1) (mult (g' ! 1) seed))]))"
  by (simp add: cascade_def cascade_seed_def cascade_loop.simps cascade_level_def refine_def
      subscript_def insert_pair_def assign_def keys_def to_string_def Let_def
      split: prod.splits)

lemma length_mult [simp]: "length (mult A x) = length A"
  by (simp add: mult_def)

lemma length_mat_scale [simp]: "length (mat_scale c M) = length M"
  by (simp add: mat_scale_def)

lemma fill_wavelet_3:
  assumes "length u = 3" "length v = 3" "length w = 3"
    and "length u' = 3" "length v' = 3" "length w' = 3"
  shows "map_option (map fst)
     (fillGridFromMaps [(''0'', u), (''01'', v), (''11'', w)]
        [(''0'', u'), (''01'', v'), (''11'', w')]) = Some [0, 3, 6, 0, 3, 6, 0, 3, 6]"
  using assms
  by (simp add: fillGridFromMaps_def fill_entry_def first_grid_element_def dec_def
      stoi_returns_def is_bit_def Let_def upt_small comp_def)

text \<open>
  C1, at a failing input: the build for order 2, a requested grid size of 10 and a wavelet
  pass creates a grid of size 12 and writes only the cells 0, 3 and 6, each three times.
  The wavelet map has the three addresses 0, 01 and 11, so the filler works with
  \<open>bins_per_int = 3\<close>, and every address has the first cell 0: the cells written are
  the same in every iteration order of the map.
\<close>

theorem setupGrid_wavelet_indices:
  "map_sum id (map_option (map_prod id (map fst)))
     (setupGrid example_provider example_dgesdd 2 10 True)
   = Inr (Some (12, [0, 3, 6, 0, 3, 6, 0, 3, 6]))"
proof -
  define H0 H1 G0 G1 :: Matrix where
    "H0 = [[Finite (1 / 2), Finite 0, Finite 0],
           [Finite (3 / 2), Finite (3 / 2), Finite (1 / 2)],
           [Finite 0, Finite (1 / 2), Finite (3 / 2)]]"
    and "H1 = [[Finite (3 / 2), Finite (1 / 2), Finite 0],
           [Finite (1 / 2), Finite (3 / 2), Finite (3 / 2)],
           [Finite 0, Finite 0, Finite (1 / 2)]]"
    and "G0 = [[Finite (1 / 2), Finite 0, Finite 0],
           [Finite (3 / 2), Finite (- 3 / 2), Finite (1 / 2)],
           [Finite 0, Finite (- 1 / 2), Finite (3 / 2)]]"
    and "G1 = [[Finite (- 3 / 2), Finite (1 / 2), Finite 0],
           [Finite (- 1 / 2), Finite (3 / 2), Finite (- 3 / 2)],
           [Finite 0, Finite 0, Finite (- 1 / 2)]]"
  define vals ders :: "double list" where
    "vals = [Finite (1 / 2), Finite (1 / 2), Finite (1 / 2)]"
    and "ders = [Finite (1 / 8589934589), Finite (1 / 8589934589), Finite (1 / 8589934589)]"
  have len: "length H0 = 3" "length H1 = 3" "length G0 = 3" "length G1 = 3"
    by (simp_all add: H0_def H1_def G0_def G1_def)
  have h: "setupMatrices [Finite (1 / 4), Finite (3 / 4), Finite (3 / 4), Finite (1 / 4)]
      = Inr [H0, H1]"
    unfolding H0_def H1_def by (rule example_h_Matvec)
  have g: "setupMatrices [Finite (1 / 4), Finite (- 3 / 4), Finite (3 / 4), Finite (- 1 / 4)]
      = Inr [G0, G1]"
    unfolding G0_def G1_def by (rule example_g_Matvec)
  have v: "calcIntegerValues example_dgesdd H0 0 = Inr vals"
    unfolding H0_def vals_def by (rule example_values)
  have d: "calcIntegerValues example_dgesdd H0 1 = Inr ders"
    unfolding H0_def ders_def by (rule example_derivs)
  define vmap where "vmap = [(''0'', mult G0 vals), (''01'', mult G0 (mult G1 vals)),
    (''11'', mult G1 (mult G1 vals))]"
  define dmap where "dmap = [(''0'', mult (mat_scale (Finite 2) G0) ders),
    (''01'', mult (mat_scale (Finite 2) G0) (mult (mat_scale (Finite 2) G1) ders)),
    (''11'', mult (mat_scale (Finite 2) G1) (mult (mat_scale (Finite 2) G1) ders))]"
  have c0: "cascade [H0, H1] [G0, G1] vals 2 4 0 True = ([H0, H1], [G0, G1], vmap)"
    by (simp add: cascade_wavelet_2 vmap_def)
  have c1: "cascade [H0, H1] [G0, G1] ders 2 4 1 True
      = (scale_all [H0, H1], scale_all [G0, G1], dmap)"
    by (simp add: cascade_wavelet_2 dmap_def scale_all_def)
  have f: "map_option (map fst) (fillGridFromMaps vmap dmap) = Some [0, 3, 6, 0, 3, 6, 0, 3, 6]"
    unfolding vmap_def dmap_def by (rule fill_wavelet_3) (simp_all add: len)
  have "setupGrid example_provider example_dgesdd 2 10 True
      = Inr (map_option (Pair 12) (fillGridFromMaps vmap dmap))"
    using h g v d c0 c1
    by (simp add: setupGrid_def example_sizes bind_error_def example_provider_def)
  then show ?thesis
    using f by (cases "fillGridFromMaps vmap dmap") simp_all
qed

subsection \<open>Cascade Engine: the addresses of a scaling pass\<close>

lemma keys_insert_pair: "set (keys (insert_pair m k v)) = insert k (set (keys m))"
  by (auto simp: insert_pair_def keys_def)

lemma distinct_insert_pair: "distinct (keys m) \<Longrightarrow> distinct (keys (insert_pair m k v))"
  by (auto simp: insert_pair_def keys_def)

lemma subscript_present: "k \<in> set (keys m) \<Longrightarrow> snd (subscript m k) = m"
proof -
  assume "k \<in> set (keys m)"
  then have "map_of m k \<noteq> None"
    by (simp add: keys_def map_of_eq_None_iff)
  then show ?thesis
    by (auto simp: subscript_def split: option.splits)
qed

lemma refine_scaling:
  assumes "binary \<in> set (keys sm)"
  shows "\<exists>v. refine h g False binary k (sm, wm, nbv)
           = (insert_pair sm (to_string k @ binary) v, wm, nbv @ [to_string k @ binary])"
proof -
  have "snd (subscript sm binary) = sm"
    using assms by (rule subscript_present)
  then show ?thesis
    by (cases "subscript sm binary") (auto simp: refine_def Let_def)
qed

lemma refine_both_scaling:
  assumes "binary \<in> set (keys sm)" "distinct (keys sm)"
  shows "\<exists>sm'. fold (refine h g False binary) [0, 1] (sm, wm, nbv)
             = (sm', wm, nbv @ [''0'' @ binary, ''1'' @ binary])
           \<and> set (keys sm') = set (keys sm) \<union> {''0'' @ binary, ''1'' @ binary}
           \<and> distinct (keys sm')"
proof -
  obtain v where v: "refine h g False binary 0 (sm, wm, nbv)
      = (insert_pair sm (''0'' @ binary) v, wm, nbv @ [''0'' @ binary])"
    using refine_scaling [OF assms(1), of h g 0 wm nbv] by (auto simp: to_string_def)
  let ?sm = "insert_pair sm (''0'' @ binary) v"
  have "binary \<in> set (keys ?sm)"
    using assms(1) by (simp add: keys_insert_pair)
  then obtain v' where v': "refine h g False binary 1 (?sm, wm, nbv @ [''0'' @ binary])
      = (insert_pair ?sm (''1'' @ binary) v', wm, (nbv @ [''0'' @ binary]) @ [''1'' @ binary])"
    using refine_scaling [of binary ?sm h g 1 wm "nbv @ [''0'' @ binary]"]
    by (auto simp: to_string_def)
  let ?sm' = "insert_pair ?sm (''1'' @ binary) v'"
  have "fold (refine h g False binary) [0, 1] (sm, wm, nbv)
      = (?sm', wm, nbv @ [''0'' @ binary, ''1'' @ binary])"
    using v v' by simp
  moreover have "set (keys ?sm') = set (keys sm) \<union> {''0'' @ binary, ''1'' @ binary}"
    by (auto simp: keys_insert_pair)
  moreover have "distinct (keys ?sm')"
    using assms(2) by (intro distinct_insert_pair)
  ultimately show ?thesis by blast
qed

lemma fold_refine_scaling:
  assumes "set bv \<subseteq> set (keys sm)" "distinct (keys sm)"
  shows "\<exists>sm'. fold (\<lambda>binary. fold (refine h g False binary) [0, 1]) bv (sm, wm, nbv)
             = (sm', wm, nbv @ children bv)
           \<and> set (keys sm') = set (keys sm) \<union> set (children bv)
           \<and> distinct (keys sm')"
  using assms
proof (induction bv arbitrary: sm nbv)
  case Nil
  then show ?case by (simp add: children_def)
next
  case (Cons b bv)
  obtain sm1 where sm1:
      "fold (refine h g False b) [0, 1] (sm, wm, nbv) = (sm1, wm, nbv @ [''0'' @ b, ''1'' @ b])"
      "set (keys sm1) = set (keys sm) \<union> {''0'' @ b, ''1'' @ b}" "distinct (keys sm1)"
    using refine_both_scaling [of b sm h g wm nbv] Cons.prems by auto
  have "set bv \<subseteq> set (keys sm1)"
    using Cons.prems(1) sm1(2) by auto
  then obtain sm' where sm':
      "fold (\<lambda>binary. fold (refine h g False binary) [0, 1]) bv
         (sm1, wm, nbv @ [''0'' @ b, ''1'' @ b])
       = (sm', wm, (nbv @ [''0'' @ b, ''1'' @ b]) @ children bv)"
      "set (keys sm') = set (keys sm1) \<union> set (children bv)" "distinct (keys sm')"
    using Cons.IH [of sm1 "nbv @ [''0'' @ b, ''1'' @ b]"] sm1(3) by blast
  have "fold (\<lambda>binary. fold (refine h g False binary) [0, 1]) (b # bv) (sm, wm, nbv)
      = (sm', wm, nbv @ children (b # bv))"
    using sm1(1) sm'(1) by (simp add: children_def)
  moreover have "set (keys sm') = set (keys sm) \<union> set (children (b # bv))"
    using sm1(2) sm'(2) by (auto simp: children_def)
  ultimately show ?case using sm'(3) by blast
qed

lemma cascade_level_scaling:
  assumes "set bv \<subseteq> set (keys sm)" "distinct (keys sm)"
  shows "\<exists>sm'. cascade_level h g False (sm, wm, bv) = (sm', wm, children bv)
           \<and> set (keys sm') = set (keys sm) \<union> set (children bv)
           \<and> distinct (keys sm')"
  using fold_refine_scaling [OF assms, of h g wm "[]"] by (simp add: cascade_level_def)

lemma cascade_loop_scaling:
  assumes "set (level_addresses n) \<subseteq> set (keys sm)" "distinct (keys sm)"
  shows "\<exists>sm' bv'. cascade_loop h g False (Suc n) r (sm, wm, level_addresses n) = (sm', wm, bv')
           \<and> set (keys sm') = set (keys sm) \<union> (\<Union>m\<in>{n..<r}. set (level_addresses m))
           \<and> distinct (keys sm')"
  using assms
proof (induction "r - Suc n" arbitrary: n sm)
  case 0
  then have "\<not> Suc n < r" by simp
  then have "cascade_loop h g False (Suc n) r (sm, wm, level_addresses n)
      = (sm, wm, level_addresses n)"
    by (subst cascade_loop.simps) simp
  moreover have "set (keys sm) \<union> (\<Union>m\<in>{n..<r}. set (level_addresses m)) = set (keys sm)"
  proof (cases "n < r")
    case True
    with \<open>\<not> Suc n < r\<close> have "{n..<r} = {n}" by auto
    then show ?thesis using "0.prems"(1) by auto
  next
    case False
    then show ?thesis by simp
  qed
  ultimately show ?case using "0.prems"(2) by simp
next
  case (Suc k)
  then have less: "Suc n < r" by simp
  obtain sm1 where sm1:
      "cascade_level h g False (sm, wm, level_addresses n) = (sm1, wm, level_addresses (Suc n))"
      "set (keys sm1) = set (keys sm) \<union> set (level_addresses (Suc n))" "distinct (keys sm1)"
    using cascade_level_scaling [OF Suc.prems, of h g wm] by auto
  have "k = r - Suc (Suc n)" using Suc.hyps(2) by simp
  moreover have "set (level_addresses (Suc n)) \<subseteq> set (keys sm1)"
    using sm1(2) by simp
  ultimately obtain sm' bv' where sm':
      "cascade_loop h g False (Suc (Suc n)) r (sm1, wm, level_addresses (Suc n)) = (sm', wm, bv')"
      "set (keys sm') = set (keys sm1) \<union> (\<Union>m\<in>{Suc n..<r}. set (level_addresses m))"
      "distinct (keys sm')"
    using Suc.hyps(1) [of "Suc n" sm1] sm1(3) by blast
  have "cascade_loop h g False (Suc n) r (sm, wm, level_addresses n) = (sm', wm, bv')"
    using less sm1(1) sm'(1) by (subst cascade_loop.simps) simp
  moreover have "{n..<r} = insert n {Suc n..<r}"
    using less by auto
  then have "set (keys sm') = set (keys sm) \<union> (\<Union>m\<in>{n..<r}. set (level_addresses m))"
    using sm'(2) sm1(2) Suc.prems(1) less by auto
  ultimately show ?case using sm'(3) by blast
qed

lemma cascade_scaling_keys:
  "\<exists>h' g' m. cascade h g seed r bins d False = (h', g', m)
     \<and> set (keys m) = {''0'', ''1''} \<union> (\<Union>n\<in>{0..<r}. set (level_addresses n))
     \<and> distinct (keys m)"
proof -
  let ?h = "if d \<noteq> 0 then scale_all h else h"
  obtain sm where sm: "cascade_seed ?h g seed False = (sm, [])" "keys sm = [''0'', ''1'']"
    by (simp add: cascade_seed_def assign_def keys_def Let_def)
  have "set (level_addresses 0) \<subseteq> set (keys sm)" "distinct (keys sm)"
    using sm(2) by simp_all
  then obtain sm' bv' where sm':
      "cascade_loop ?h g False (Suc 0) r (sm, [], level_addresses 0) = (sm', [], bv')"
      "set (keys sm') = set (keys sm) \<union> (\<Union>m\<in>{0..<r}. set (level_addresses m))"
      "distinct (keys sm')"
    using cascade_loop_scaling [of 0 sm ?h g r "[]"] by blast
  have "cascade h g seed r bins d False = (?h, g, sm')"
    using sm(1) sm'(1) by (simp add: cascade_def Let_def)
  then show ?thesis
    using sm'(2,3) sm(2) by auto
qed

subsection \<open>The addresses of one length and their decimal values\<close>

lemma set_children:
  "set (children bv) = (#) CHR ''0'' ` set bv \<union> (#) CHR ''1'' ` set bv"
  by (auto simp: children_def)

lemma odd_addresses_1: "odd_addresses (Suc 0) = {''1''}"
proof -
  have "b = ''1''" if "length b = Suc 0" "last b = CHR ''1''" for b :: string
    using that by (cases b) auto
  then show ?thesis
    by (auto simp: odd_addresses_def is_bit_def)
qed

lemma odd_addresses_Suc:
  "odd_addresses (Suc (Suc n))
     = (#) CHR ''0'' ` odd_addresses (Suc n) \<union> (#) CHR ''1'' ` odd_addresses (Suc n)"
proof (intro set_eqI iffI)
  fix b
  assume "b \<in> odd_addresses (Suc (Suc n))"
  then have b: "length b = Suc (Suc n)" "\<forall>c\<in>set b. is_bit c" "last b = CHR ''1''"
    by (simp_all add: odd_addresses_def)
  then obtain c b' where cb: "b = c # b'" "length b' = Suc n"
    by (cases b) auto
  then have "b' \<noteq> []" by auto
  with b cb have "b' \<in> odd_addresses (Suc n)" "c = CHR ''0'' \<or> c = CHR ''1''"
    by (auto simp: odd_addresses_def is_bit_def)
  with cb(1) show "b \<in> (#) CHR ''0'' ` odd_addresses (Suc n) \<union> (#) CHR ''1'' ` odd_addresses (Suc n)"
    by auto
next
  fix b
  assume "b \<in> (#) CHR ''0'' ` odd_addresses (Suc n) \<union> (#) CHR ''1'' ` odd_addresses (Suc n)"
  then obtain c b' where cb: "b = c # b'" "b' \<in> odd_addresses (Suc n)" "is_bit c"
    by (auto simp: is_bit_def)
  then have "b' \<noteq> []" by (auto simp: odd_addresses_def)
  with cb show "b \<in> odd_addresses (Suc (Suc n))"
    by (auto simp: odd_addresses_def)
qed

lemma set_level_addresses: "set (level_addresses n) = odd_addresses (Suc n)"
  by (induction n) (simp_all add: odd_addresses_1 set_children odd_addresses_Suc)

lemma foldl_bits:
  fixes f :: "nat \<Rightarrow> char \<Rightarrow> nat"
  assumes f: "\<And>a c. f a c = 2 * a + f 0 c"
  shows "foldl f a bs = a * 2 ^ length bs + foldl f 0 bs"
proof (induction bs arbitrary: a)
  case Nil
  then show ?case by simp
next
  case (Cons c bs)
  have "foldl f a (c # bs) = f a c * 2 ^ length bs + foldl f 0 bs"
    using Cons.IH [of "f a c"] by simp
  also have "\<dots> = a * 2 ^ length (c # bs) + (f 0 c * 2 ^ length bs + foldl f 0 bs)"
    by (subst f) (simp add: algebra_simps)
  also have "f 0 c * 2 ^ length bs + foldl f 0 bs = foldl f 0 (c # bs)"
    using Cons.IH [of "f 0 c"] by simp
  finally show ?case .
qed

lemma dec_bits:
  assumes "\<forall>c\<in>set b. is_bit c"
  shows "dec b = foldl (\<lambda>acc c. 2 * acc + (if c = CHR ''1'' then 1 else 0)) 0 b"
proof -
  have "takeWhile is_bit b = b" using assms by (simp add: takeWhile_eq_all_conv)
  then show ?thesis by (simp only: dec_def)
qed

lemma dec_Cons_0:
  assumes "\<forall>c\<in>set b. is_bit c"
  shows "dec (CHR ''0'' # b) = dec b"
proof -
  have "\<forall>c\<in>set (CHR ''0'' # b). is_bit c" using assms by (simp add: is_bit_def)
  then show ?thesis using assms by (simp add: dec_bits)
qed

lemma dec_Cons_1:
  assumes "\<forall>c\<in>set b. is_bit c"
  shows "dec (CHR ''1'' # b) = 2 ^ length b + dec b"
proof -
  have "\<forall>c\<in>set (CHR ''1'' # b). is_bit c" using assms by (simp add: is_bit_def)
  then show ?thesis
    using assms foldl_bits [of "\<lambda>acc c. 2 * acc + (if c = CHR ''1'' then 1 else 0)" 1 b]
    by (simp add: dec_bits)
qed

lemma dec_less:
  assumes "\<forall>c\<in>set b. is_bit c"
  shows "dec b < 2 ^ length b"
  using assms
proof (induction b)
  case Nil
  then show ?case by (simp add: dec_def)
next
  case (Cons c b)
  then have "dec b < 2 ^ length b" "\<forall>c\<in>set b. is_bit c" "c = CHR ''0'' \<or> c = CHR ''1''"
    by (simp_all add: is_bit_def)
  then show ?case
    by (auto simp: dec_Cons_0 dec_Cons_1)
qed

lemma odd_addresses_bits: "b \<in> odd_addresses l \<Longrightarrow> length b = l \<and> (\<forall>c\<in>set b. is_bit c)"
  by (simp add: odd_addresses_def)

lemma dec_odd_addresses:
  "inj_on dec (odd_addresses (Suc n))
     \<and> dec ` odd_addresses (Suc n) = {k. odd k \<and> k < 2 ^ Suc n}"
proof (induction n)
  case 0
  have "dec ''1'' = 1" by (simp add: dec_def is_bit_def)
  moreover have "{k::nat. odd k \<and> k < 2 ^ Suc 0} = {1}"
    by (auto simp: less_Suc_eq numeral_2_eq_2)
  ultimately show ?case by (simp add: odd_addresses_1)
next
  case (Suc n)
  let ?A = "odd_addresses (Suc n)"
  have inj: "inj_on dec ?A" and img: "dec ` ?A = {k. odd k \<and> k < 2 ^ Suc n}"
    using Suc.IH by simp_all
  have d0: "dec (CHR ''0'' # b) = dec b" if "b \<in> ?A" for b
    using that odd_addresses_bits [of b] by (simp add: dec_Cons_0)
  have d1: "dec (CHR ''1'' # b) = 2 ^ Suc n + dec b" if "b \<in> ?A" for b
    using that odd_addresses_bits [of b "Suc n"] dec_Cons_1 [of b] by simp
  have small: "dec b < 2 ^ Suc n" "odd (dec b)" if "b \<in> ?A" for b
    using that img by auto
  have "inj_on dec ((#) CHR ''0'' ` ?A \<union> (#) CHR ''1'' ` ?A)"
  proof (rule inj_onI)
    fix x y
    assume x: "x \<in> (#) CHR ''0'' ` ?A \<union> (#) CHR ''1'' ` ?A"
      and y: "y \<in> (#) CHR ''0'' ` ?A \<union> (#) CHR ''1'' ` ?A"
      and eq: "dec x = dec y"
    from x obtain c b where xb: "x = c # b" "b \<in> ?A" "c = CHR ''0'' \<or> c = CHR ''1''" by auto
    from y obtain c' b' where yb: "y = c' # b'" "b' \<in> ?A" "c' = CHR ''0'' \<or> c' = CHR ''1''" by auto
    have "c = c' \<and> dec b = dec b'"
      using xb yb eq d0 [of b] d1 [of b] d0 [of b'] d1 [of b'] small(1) [of b] small(1) [of b']
      by auto
    then show "x = y"
      using xb yb inj by (auto dest: inj_onD)
  qed
  moreover have "dec ` ((#) CHR ''0'' ` ?A \<union> (#) CHR ''1'' ` ?A) = {k. odd k \<and> k < 2 ^ Suc (Suc n)}"
  proof (intro set_eqI iffI)
    fix k
    assume "k \<in> dec ` ((#) CHR ''0'' ` ?A \<union> (#) CHR ''1'' ` ?A)"
    then obtain b where "b \<in> ?A" "k = dec b \<or> k = 2 ^ Suc n + dec b"
      using d0 d1 by auto
    then show "k \<in> {k. odd k \<and> k < 2 ^ Suc (Suc n)}"
      using small [of b] by auto
  next
    fix k :: nat
    assume "k \<in> {k. odd k \<and> k < 2 ^ Suc (Suc n)}"
    then have k: "odd k" "k < 2 ^ Suc (Suc n)" by simp_all
    show "k \<in> dec ` ((#) CHR ''0'' ` ?A \<union> (#) CHR ''1'' ` ?A)"
    proof (cases "k < 2 ^ Suc n")
      case True
      with k(1) have "k \<in> dec ` ?A" using img by simp
      then obtain b where "b \<in> ?A" "k = dec b" by auto
      then have "k = dec (CHR ''0'' # b)" "CHR ''0'' # b \<in> (#) CHR ''0'' ` ?A"
        using d0 by simp_all
      then show ?thesis by blast
    next
      case False
      then have "odd (k - 2 ^ Suc n)" "k - 2 ^ Suc n < 2 ^ Suc n"
        using k by auto
      then have "k - 2 ^ Suc n \<in> dec ` ?A" using img by simp
      then obtain b where "b \<in> ?A" "k - 2 ^ Suc n = dec b" by auto
      then have "k = dec (CHR ''1'' # b)" "CHR ''1'' # b \<in> (#) CHR ''1'' ` ?A"
        using d1 False by simp_all
      then show ?thesis by blast
    qed
  qed
  ultimately show ?case by (simp only: odd_addresses_Suc)
qed

subsection \<open>The addresses of a scaling pass and the cells they are written to\<close>

lemma addresses_length:
  assumes "1 \<le> r" "b \<in> insert ''0'' (\<Union>n\<in>{0..<r}. odd_addresses (Suc n))"
  shows "1 \<le> length b \<and> length b \<le> r \<and> (\<forall>c\<in>set b. is_bit c)"
proof -
  have "1 \<le> length ''0'' \<and> length ''0'' \<le> r \<and> (\<forall>c\<in>set ''0''. is_bit c)"
    using assms(1) by (simp add: is_bit_def)
  moreover have "1 \<le> length b \<and> length b \<le> r \<and> (\<forall>c\<in>set b. is_bit c)"
    if "n < r" "b \<in> odd_addresses (Suc n)" for n
    using that by (simp add: odd_addresses_def)
  ultimately show ?thesis using assms(2) by auto
qed

lemma addresses_cells:
  assumes "1 \<le> r"
  shows "bij_betw (\<lambda>b. dec b * 2 ^ (r - length b))
           (insert ''0'' (\<Union>n\<in>{0..<r}. odd_addresses (Suc n))) {0..<2 ^ r}"
  using assms
proof (induction r rule: nat_induct_at_least)
  case base
  have "(\<Union>n\<in>{0..<Suc 0}. odd_addresses (Suc n)) = {''1''}"
    by (simp add: odd_addresses_1)
  moreover have "dec ''0'' = 0" "dec ''1'' = 1"
    by (simp_all add: dec_def is_bit_def)
  moreover have "{0..<2 ^ 1} = {0, 1::nat}" by auto
  ultimately show ?case
    by (simp add: bij_betw_def)
next
  case (Suc r)
  define K where "K = insert ''0'' (\<Union>n\<in>{0..<r}. odd_addresses (Suc n))"
  define f where "f = (\<lambda>b. dec b * 2 ^ (r - length b))"
  define g where "g = (\<lambda>b. dec b * 2 ^ (Suc r - length b))"
  define Ev where "Ev = {k::nat. even k \<and> k < 2 ^ Suc r}"
  define Od where "Od = {k::nat. odd k \<and> k < 2 ^ Suc r}"
  have K: "insert ''0'' (\<Union>n\<in>{0..<Suc r}. odd_addresses (Suc n)) = K \<union> odd_addresses (Suc r)"
    unfolding K_def by (simp add: atLeast0_lessThan_Suc Un_commute)
  have even_part: "g b = 2 * f b" if "b \<in> K" for b
  proof -
    have "length b \<le> r"
      using addresses_length [OF Suc.hyps, of b] that unfolding K_def by simp
    then have "Suc r - length b = Suc (r - length b)" by simp
    then show ?thesis by (simp add: f_def g_def)
  qed
  have odd_part: "g b = dec b" if "b \<in> odd_addresses (Suc r)" for b
    using that by (simp add: odd_addresses_def g_def)
  have inj: "inj_on f K" and img: "f ` K = {0..<2 ^ r}"
    using Suc.IH unfolding K_def f_def by (simp_all add: bij_betw_def)
  have "bij_betw g K Ev"
  proof (rule bij_betw_imageI)
    show "inj_on g K"
    proof (rule inj_onI)
      fix x y
      assume x: "x \<in> K" and y: "y \<in> K" and "g x = g y"
      then have "f x = f y" using even_part [of x] even_part [of y] by simp
      then show "x = y" using x y by (rule inj_onD [OF inj])
    qed
    have "g ` K = (\<lambda>k. 2 * k) ` f ` K"
      using even_part by (auto simp: image_iff)
    also have "\<dots> = (\<lambda>k. 2 * k) ` {0..<2 ^ r}"
      by (simp only: img)
    also have "\<dots> = Ev"
    proof (intro set_eqI iffI)
      fix k :: nat
      assume "k \<in> Ev"
      then have "k = 2 * (k div 2)" "k div 2 \<in> {0..<2 ^ r}"
        unfolding Ev_def by auto
      then show "k \<in> (\<lambda>k. 2 * k) ` {0..<2 ^ r}" by (rule image_eqI)
    next
      fix k :: nat
      assume "k \<in> (\<lambda>k. 2 * k) ` {0..<2 ^ r}"
      then show "k \<in> Ev" unfolding Ev_def by auto
    qed
    finally show "g ` K = Ev" .
  qed
  moreover have "bij_betw g (odd_addresses (Suc r)) Od"
  proof -
    have "bij_betw dec (odd_addresses (Suc r)) Od"
      using dec_odd_addresses [of r] unfolding Od_def bij_betw_def by blast
    moreover have "bij_betw g (odd_addresses (Suc r)) Od = bij_betw dec (odd_addresses (Suc r)) Od"
      using odd_part by (rule bij_betw_cong)
    ultimately show ?thesis by simp
  qed
  moreover have "Ev \<inter> Od = {}"
    unfolding Ev_def Od_def by auto
  ultimately have "bij_betw g (K \<union> odd_addresses (Suc r)) (Ev \<union> Od)"
    by (rule bij_betw_combine)
  moreover have "Ev \<union> Od = {0..<2 ^ Suc r}"
    unfolding Ev_def Od_def by auto
  ultimately show ?case unfolding K g_def by simp
qed

lemma addresses_by_length:
  "(\<Union>n\<in>{0..<r}. odd_addresses (Suc n)) = (\<Union>l\<in>{1..r}. odd_addresses l)"
proof (intro set_eqI iffI)
  fix b
  assume "b \<in> (\<Union>n\<in>{0..<r}. odd_addresses (Suc n))"
  then obtain n where "n < r" "b \<in> odd_addresses (Suc n)" by auto
  then have "Suc n \<in> {1..r}" by simp
  then show "b \<in> (\<Union>l\<in>{1..r}. odd_addresses l)"
    using \<open>b \<in> odd_addresses (Suc n)\<close> by (rule UN_I)
next
  fix b
  assume "b \<in> (\<Union>l\<in>{1..r}. odd_addresses l)"
  then obtain l where l: "1 \<le> l" "l \<le> r" "b \<in> odd_addresses l" by auto
  then have "l - 1 \<in> {0..<r}" "b \<in> odd_addresses (Suc (l - 1))" by simp_all
  then show "b \<in> (\<Union>n\<in>{0..<r}. odd_addresses (Suc n))"
    by (rule UN_I)
qed

lemma cascade_scaling_summary:
  assumes "1 \<le> r"
  shows "\<exists>h' g' m. cascade h g seed r bins d False = (h', g', m)
           \<and> set (keys m) = insert ''0'' (\<Union>n\<in>{0..<r}. odd_addresses (Suc n))
           \<and> distinct (keys m) \<and> length m = 2 ^ r"
proof -
  obtain h' g' m where m: "cascade h g seed r bins d False = (h', g', m)"
      "set (keys m) = {''0'', ''1''} \<union> (\<Union>n\<in>{0..<r}. set (level_addresses n))"
      "distinct (keys m)"
    using cascade_scaling_keys [of h g seed r bins d] by (elim exE conjE)
  have "0 \<in> {0..<r}" using assms by simp
  moreover have "''1'' \<in> odd_addresses (Suc 0)" by (simp add: odd_addresses_1)
  ultimately have one: "''1'' \<in> (\<Union>n\<in>{0..<r}. odd_addresses (Suc n))"
    by (rule UN_I)
  have "set (keys m) = {''0'', ''1''} \<union> (\<Union>n\<in>{0..<r}. odd_addresses (Suc n))"
    using m(2) by (simp only: set_level_addresses)
  also have "\<dots> = insert ''0'' (insert ''1'' (\<Union>n\<in>{0..<r}. odd_addresses (Suc n)))"
    by (simp only: insert_is_Un [symmetric] Un_insert_left Un_empty_left)
  also have "\<dots> = insert ''0'' (\<Union>n\<in>{0..<r}. odd_addresses (Suc n))"
    using one by (simp only: insert_absorb)
  finally have s: "set (keys m) = insert ''0'' (\<Union>n\<in>{0..<r}. odd_addresses (Suc n))" .
  have "length m = length (keys m)" by (simp add: keys_def)
  also have "\<dots> = card (set (keys m))"
    using m(3) by (simp add: distinct_card)
  also have "\<dots> = card {0..<(2::nat) ^ r}"
    unfolding s using addresses_cells [OF assms] by (rule bij_betw_same_card)
  finally have "length m = 2 ^ r" by simp
  with m(1,3) s show ?thesis by (intro exI conjI)
qed

text \<open>
  C3 (as amended). For every scaling pass (\<open>do_wavelet = false\<close>) with
  \<open>recursion_number \<ge> 1\<close>, every address of the returned map has a length between 1 and
  \<open>recursion_number\<close>, and the map contains exactly \<open>2 ^ recursion_number\<close> distinct
  addresses.
\<close>

theorem cascade_scaling_address_lengths:
  assumes "1 \<le> r"
  shows "(\<forall>b\<in>set (keys (snd (snd (cascade h_Matvec g_Matvec seed r bins derivnum False)))).
             1 \<le> length b \<and> length b \<le> r)
         \<and> distinct (keys (snd (snd (cascade h_Matvec g_Matvec seed r bins derivnum False))))
         \<and> length (snd (snd (cascade h_Matvec g_Matvec seed r bins derivnum False))) = 2 ^ r"
proof -
  obtain h' g' m where m: "cascade h_Matvec g_Matvec seed r bins derivnum False = (h', g', m)"
      "set (keys m) = insert ''0'' (\<Union>n\<in>{0..<r}. odd_addresses (Suc n))"
      "distinct (keys m)" "length m = 2 ^ r"
    using cascade_scaling_summary [OF assms, of h_Matvec g_Matvec seed bins derivnum]
    by (elim exE conjE)
  have "\<forall>b\<in>set (keys m). 1 \<le> length b \<and> length b \<le> r"
    using addresses_length [OF assms] unfolding m(2) by simp
  then show ?thesis
    using m(3,4) unfolding m(1) by simp
qed

text \<open>A scaling pass with \<open>recursion_number = 2\<close>.\<close>

theorem cascade_scaling_address_lengths_witness:
  "(1::nat) \<le> 2
   \<and> list_all (\<lambda>b. 1 \<le> length b \<and> length b \<le> 2)
        (keys (snd (snd (cascade [[[Finite 1]], [[Finite 1]]] [] [Finite 1] 2 4 0 False))))
   \<and> distinct (keys (snd (snd (cascade [[[Finite 1]], [[Finite 1]]] [] [Finite 1] 2 4 0 False))))
   \<and> length (snd (snd (cascade [[[Finite 1]], [[Finite 1]]] [] [Finite 1] 2 4 0 False))) = 2 ^ 2"
proof -
  have h: "(1::nat) \<le> 2" by simp
  show ?thesis
    using h cascade_scaling_address_lengths
      [OF h, of "[[[Finite 1]], [[Finite 1]]]" "[]" "[Finite 1]" 4 0]
    unfolding list_all_iff by (intro conjI) simp_all
qed

text \<open>
  C3 as stated fails: a scaling pass with \<open>recursion_number = 2\<close> returns a map that holds
  the address 0, of length 1.
\<close>

theorem cascade_short_address_counterexample:
  "keys (snd (snd (cascade [[[Finite 1]], [[Finite 1]]] [] [Finite 1] 2 4 0 False)))
     = [''0'', ''1'', ''01'', ''11'']
   \<and> length ''0'' \<noteq> (2::nat)"
  by (simp add: cascade_def cascade_seed_def cascade_loop.simps cascade_level_def refine_def
      subscript_def insert_pair_def assign_def keys_def to_string_def Let_def
      split: prod.splits)

subsection \<open>The base cells of a scaling build\<close>

lemma recursion_loop_bound: "recursion_loop ms gs r = Some n \<Longrightarrow> n < 32"
proof (induction ms gs r rule: recursion_loop.induct)
  case (1 ms gs r)
  show ?case
  proof (cases "32 \<le> r")
    case True
    then show ?thesis using "1.prems" by (subst (asm) recursion_loop.simps) simp
  next
    case False
    show ?thesis
    proof (cases "(ms * 2 ^ r) mod 2 ^ 32 < gs")
      case True
      then have "recursion_loop ms gs (r + 1) = Some n"
        using False "1.prems" by (subst (asm) recursion_loop.simps) simp
      with False True show ?thesis by (rule "1.IH")
    next
      case nl: False
      then have "n = r"
        using False "1.prems" by (subst (asm) recursion_loop.simps) simp
      then show ?thesis using False by simp
    qed
  qed
qed

lemma grid_sizes_bins:
  assumes "grid_sizes order gridsize = Some (r, bins, gs)"
  shows "r < 32 \<and> bins = 2 ^ r"
proof -
  from assms obtain n where "recursion_loop (maxsupport_of order) gridsize 0 = Some n"
      "r = n" "bins = 2 ^ n"
    by (auto simp: grid_sizes_def Let_def split: option.splits)
  then show ?thesis using recursion_loop_bound by blast
qed

lemma first_grid_element_address:
  assumes "1 \<le> r" "r < 32" "b \<in> insert ''0'' (\<Union>n\<in>{0..<r}. odd_addresses (Suc n))"
  shows "first_grid_element (2 ^ r) b = dec b * 2 ^ (r - length b)"
proof -
  have b: "length b \<le> r" "\<forall>c\<in>set b. is_bit c"
    using addresses_length [OF assms(1,3)] by simp_all
  have "(2::nat) ^ r div 2 ^ length b = 2 ^ (r - length b)"
    using b(1) by (simp add: power_diff)
  moreover have "dec b * 2 ^ (r - length b) < 2 ^ 32"
  proof -
    have "dec b * 2 ^ (r - length b) < 2 ^ length b * 2 ^ (r - length b)"
      using dec_less [OF b(2)] by simp
    also have "\<dots> = 2 ^ r"
      using b(1) by (simp add: power_add [symmetric])
    also have "\<dots> < (2::nat) ^ 32"
      using assms(2) by (intro power_strict_increasing) simp_all
    finally show ?thesis .
  qed
  ultimately show ?thesis
    unfolding first_grid_element_def by (simp only: mod_less)
qed

text \<open>
  C10. For every scaling build with \<open>recursion_number = r \<ge> 1\<close>, the map that the cascade
  returns has exactly \<open>2 ^ r\<close> keys: the string 0 and, for each length from 1 to \<open>r\<close>,
  every bit string of that length whose last bit is 1. The rule
  \<open>first_grid_element = dec * (bins_per_int >> length)\<close> of the filler, whose
  \<open>bins_per_int\<close> is the size of the map, maps these keys one-to-one onto the base cells
  \<open>0, \<dots>, bins_per_int - 1\<close>.
\<close>

theorem scaling_build_addresses:
  assumes "grid_sizes order gridsize = Some (r, bins, gs)" "1 \<le> r"
  shows "set (keys (snd (snd (cascade h_Matvec g_Matvec seed r bins derivnum False))))
           = insert ''0'' (\<Union>l\<in>{1..r}. odd_addresses l)
         \<and> distinct (keys (snd (snd (cascade h_Matvec g_Matvec seed r bins derivnum False))))
         \<and> length (snd (snd (cascade h_Matvec g_Matvec seed r bins derivnum False))) = 2 ^ r
         \<and> bins = 2 ^ r
         \<and> bij_betw
             (first_grid_element
                (length (snd (snd (cascade h_Matvec g_Matvec seed r bins derivnum False)))
                   mod 2 ^ 32))
             (set (keys (snd (snd (cascade h_Matvec g_Matvec seed r bins derivnum False)))))
             {0..<bins}"
proof -
  define K where "K = insert ''0'' (\<Union>n\<in>{0..<r}. odd_addresses (Suc n))"
  have r: "r < 32" and bins: "bins = 2 ^ r"
    using grid_sizes_bins [OF assms(1)] by simp_all
  obtain h' g' m where m: "cascade h_Matvec g_Matvec seed r bins derivnum False = (h', g', m)"
      "set (keys m) = K" "distinct (keys m)" "length m = 2 ^ r"
    using cascade_scaling_summary [OF assms(2), of h_Matvec g_Matvec seed bins derivnum]
    unfolding K_def by (elim exE conjE)
  have K: "K = insert ''0'' (\<Union>l\<in>{1..r}. odd_addresses l)"
    unfolding K_def by (simp only: addresses_by_length)
  have "(2::nat) ^ r < 2 ^ 32"
    using r by (intro power_strict_increasing) simp_all
  then have size: "length m mod 2 ^ 32 = 2 ^ r"
    unfolding m(4) by (rule mod_less)
  have "bij_betw (\<lambda>b. dec b * 2 ^ (r - length b)) K {0..<2 ^ r}"
    unfolding K_def using assms(2) by (rule addresses_cells)
  moreover have "bij_betw (first_grid_element (2 ^ r)) K {0..<2 ^ r}
      = bij_betw (\<lambda>b. dec b * 2 ^ (r - length b)) K {0..<2 ^ r}"
    using first_grid_element_address [OF assms(2) r] unfolding K_def by (rule bij_betw_cong)
  ultimately have "bij_betw (first_grid_element (length m mod 2 ^ 32)) (set (keys m)) {0..<bins}"
    unfolding size m(2) bins by simp
  then show ?thesis
    using m(2,3,4) bins K unfolding m(1) by simp
qed

text \<open>The build for order 2 and a requested grid size of 10.\<close>

theorem scaling_build_addresses_witness:
  "grid_sizes 2 10 = Some (2, 4, 12) \<and> (1::nat) \<le> 2
   \<and> set (keys (snd (snd (cascade [[[Finite 1]], [[Finite 1]]] [] [Finite 1] 2 4 0 False))))
           = insert ''0'' (\<Union>l\<in>{1..2}. odd_addresses l)
   \<and> distinct (keys (snd (snd (cascade [[[Finite 1]], [[Finite 1]]] [] [Finite 1] 2 4 0 False))))
   \<and> length (snd (snd (cascade [[[Finite 1]], [[Finite 1]]] [] [Finite 1] 2 4 0 False))) = 2 ^ 2
   \<and> (4::nat) = 2 ^ 2
   \<and> bij_betw
        (first_grid_element
           (length (snd (snd (cascade [[[Finite 1]], [[Finite 1]]] [] [Finite 1] 2 4 0 False)))
              mod 2 ^ 32))
        (set (keys (snd (snd (cascade [[[Finite 1]], [[Finite 1]]] [] [Finite 1] 2 4 0 False)))))
        {0..<4}"
proof -
  have s: "grid_sizes 2 10 = Some (2, 4, 12)"
    by (simp add: grid_sizes_def maxsupport_of_def recursion_loop.simps)
  have h: "(1::nat) \<le> 2" by simp
  show ?thesis
    by (rule conjI [OF s conjI [OF h scaling_build_addresses
      [OF s h, of "[[[Finite 1]], [[Finite 1]]]" "[]" "[Finite 1]" 0]]])
qed

end
